theory Spec2Isabelle
  imports Complex_Main
begin

section \<open>Exceptions\<close>

text \<open>
  Every \<open>raise\<close> of the modelled sources is a value of one of these types. The
  \<open>ValueError\<close>s of \<open>web_urldispatcher.py\<close> are told apart by the raise site, since
  their messages are formatted text. \<open>Unmodelled\<close> is not an exception of the program:
  it marks an input that leads outside the fragment of a library that is modelled.
\<close>

datatype value_error =
    Incorrect_route_name string
  | Duplicate_name string
  | Path_should_start_with_slash
  | Invalid_path string string
  | Bad_pattern string
  | Not_allowed_method string

datatype error =
    KeyError
  | IndexError
  | TypeError
  | AssertionError
  | NameError string
  | AttributeError string
  | ValueError value_error
  | HTTPNotFound
  | HTTPNotModified
  | Unmodelled string

section \<open>multidict.py\<close>

subsection \<open>MultiDict\<close>

text \<open>
  \<open>MultiDict\<close> has the single slot \<open>_items\<close>, a list of \<open>(key, value)\<close> pairs.
  The constructor starts from the empty list and \<open>_fill\<close> extends it by the pairs
  given; \<open>MutableMultiDictMixin.add\<close> appends one pair.
\<close>

record ('k, 'v) MultiDict =
  m_items :: "('k \<times> 'v) list"

definition fill :: "('k, 'v) MultiDict \<Rightarrow> ('k \<times> 'v) list \<Rightarrow> ('k, 'v) MultiDict" where
  "fill m ipairs = m\<lparr>m_items := m_items m @ ipairs\<rparr>"

definition MultiDict_init :: "('k \<times> 'v) list \<Rightarrow> ('k, 'v) MultiDict" where
  "MultiDict_init args = fill \<lparr>m_items = []\<rparr> args"

text \<open>
  \<open>getall(key, default=_marker)\<close>: the values of the pairs whose key is \<open>key\<close>, in
  order; the default when there is none and one was given (\<open>Some d\<close>), else
  \<open>KeyError\<close>.
\<close>

definition getall :: "('k, 'v) MultiDict \<Rightarrow> 'k \<Rightarrow> 'v list option \<Rightarrow> error + 'v list" where
  "getall m key dflt =
     (let res = map snd (filter (\<lambda>(k, v). k = key) (m_items m))
      in if res \<noteq> [] then Inr res
         else case dflt of Some d \<Rightarrow> Inr d | None \<Rightarrow> Inl KeyError)"

subsection \<open>MutableMultiDictMixin\<close>

definition add :: "('k, 'v) MultiDict \<Rightarrow> 'k \<Rightarrow> 'v \<Rightarrow> ('k, 'v) MultiDict" where
  "add m key val = m\<lparr>m_items := m_items m @ [(key, val)]\<rparr>"

text \<open>\<open>extend\<close> with a sequence of pairs: \<open>for key, value in items: self.add(key, value)\<close>.\<close>

definition extend_md :: "('k, 'v) MultiDict \<Rightarrow> ('k \<times> 'v) list \<Rightarrow> ('k, 'v) MultiDict" where
  "extend_md m ipairs = foldl (\<lambda>m' (key, val). add m' key val) m ipairs"

text \<open>\<open>del items[i]\<close>; Python raises \<open>IndexError\<close> out of range.\<close>

definition del_at :: "'a list \<Rightarrow> nat \<Rightarrow> error + 'a list" where
  "del_at xs i = (if i < length xs then Inr (take i xs @ drop (Suc i) xs) else Inl IndexError)"

text \<open>
  The loop of \<open>__delitem__\<close>, \<open>for i in range(len(items)-1, -1, -1)\<close>: the third
  argument counts the indices still to visit, so \<open>Suc i\<close> visits index \<open>i\<close>. The
  list is mutated while the loop runs; the bound of the range was fixed before.
\<close>

fun delitem_loop ::
  "('k \<times> 'v) list \<Rightarrow> 'k \<Rightarrow> nat \<Rightarrow> bool \<Rightarrow> error + (('k \<times> 'v) list \<times> bool)" where
  "delitem_loop items key 0 found = Inr (items, found)"
| "delitem_loop items key (Suc i) found =
     (if i < length items then
        (if fst (items ! i) = key then
           (case del_at items i of
              Inl e \<Rightarrow> Inl e
            | Inr items' \<Rightarrow> delitem_loop items' key i True)
         else delitem_loop items key i found)
      else Inl IndexError)"

text \<open>
  A method that mutates \<open>self\<close> returns its outcome together with the object as it is
  left: an exception does not undo what was done before it was raised.
\<close>

definition delitem :: "('k, 'v) MultiDict \<Rightarrow> 'k \<Rightarrow> (error + unit) \<times> ('k, 'v) MultiDict" where
  "delitem m key =
     (case delitem_loop (m_items m) key (length (m_items m)) False of
        Inl e \<Rightarrow> (Inl e, m)
      | Inr (items', found) \<Rightarrow>
          (if \<not> found then (Inl KeyError, m\<lparr>m_items := items'\<rparr>)
           else (Inr (), m\<lparr>m_items := items'\<rparr>)))"

text \<open>\<open>__setitem__\<close>: \<open>try: del self[key] except KeyError: pass\<close>, then append.\<close>

definition setitem :: "('k, 'v) MultiDict \<Rightarrow> 'k \<Rightarrow> 'v \<Rightarrow> (error + unit) \<times> ('k, 'v) MultiDict" where
  "setitem m key val =
     (case delitem m key of
        (Inl KeyError, m') \<Rightarrow> (Inr (), m'\<lparr>m_items := m_items m' @ [(key, val)]\<rparr>)
      | (Inl e, m') \<Rightarrow> (Inl e, m')
      | (Inr u, m') \<Rightarrow> (Inr (), m'\<lparr>m_items := m_items m' @ [(key, val)]\<rparr>))"

subsection \<open>\_ItemsView\<close>

text \<open>
  The inner loop of \<open>_ItemsView.__init__\<close>: append the first pair whose key is
  \<open>key\<close> and \<open>break\<close>.
\<close>

fun first_pair :: "('k \<times> 'v) list \<Rightarrow> 'k \<Rightarrow> ('k \<times> 'v) list" where
  "first_pair [] key = []"
| "first_pair ((k, v) # items) key = (if k = key then [(k, v)] else first_pair items key)"

text \<open>
  Without \<open>getall\<close> the keys are put into a Python \<open>set\<close> and the outer loop runs
  over that set. The order in which a set is iterated is not fixed by the language:
  it is the parameter \<open>set_order\<close>, an enumeration of \<open>set(self._keys)\<close>. The result
  is the list \<open>items_to_use\<close> the view iterates (\<open>__iter__\<close> yields from it); the
  \<open>assert\<close> compares its length with the number of keys kept.
\<close>

definition ItemsView_init ::
  "('k \<times> 'v) list \<Rightarrow> bool \<Rightarrow> 'k list \<Rightarrow> error + ('k \<times> 'v) list" where
  "ItemsView_init items getall_flag set_order =
     (let keys = (if getall_flag then map fst items else set_order);
          items_to_use =
            (if getall_flag then items
             else concat (map (first_pair items) keys))
      in if length items_to_use = length keys then Inr items_to_use
         else Inl AssertionError)"

definition items :: "('k, 'v) MultiDict \<Rightarrow> bool \<Rightarrow> 'k list \<Rightarrow> error + ('k \<times> 'v) list" where
  "items m getall_flag set_order = ItemsView_init (m_items m) getall_flag set_order"

text \<open>What Python may choose as the iteration order of \<open>set(keys)\<close>.\<close>

definition set_iteration :: "'k list \<Rightarrow> 'k list \<Rightarrow> bool" where
  "set_iteration keys order = (distinct order \<and> set order = set keys)"

section \<open>http\_message.py\<close>

subsection \<open>Bytes\<close>

type_synonym bytes = string

definition CRLF :: bytes where
  "CRLF = [CHR 0x0D, CHR 0x0A]"

definition hex_digit :: "nat \<Rightarrow> char" where
  "hex_digit d = ''0123456789abcdef'' ! (d mod 16)"

text \<open>\<open>'%x' % n\<close> for \<open>n \<ge> 0\<close>: lower-case hexadecimal, no leading zero.\<close>

fun hex :: "nat \<Rightarrow> string" where
  "hex n = (if n < 16 then [hex_digit n] else hex (n div 16) @ [hex_digit (n mod 16)])"

declare hex.simps [simp del]

subsection \<open>The collaborators of the writer\<close>

text \<open>
  The stream (the connection) is not part of \<open>http_message.py\<close>; the writer reads
  and sets \<open>available\<close>, reads \<open>transport\<close> and calls \<open>acquire\<close>, \<open>release\<close> and
  \<open>drain\<close>. The record keeps what the writer can observe or cause: whether
  \<open>acquire\<close> was called and how many times \<open>release\<close> was. A transport is an
  opaque handle.
\<close>

type_synonym transport = nat

record stream =
  s_available :: bool
  s_transport :: "transport option"
  s_acquired :: bool
  s_released :: nat

definition acquire :: "stream \<Rightarrow> stream" where
  "acquire s = s\<lparr>s_acquired := True\<rparr>"

definition release :: "stream \<Rightarrow> stream" where
  "release s = s\<lparr>s_released := Suc (s_released s)\<rparr>"

text \<open>
  \<open>zlib\<close> is a library: a compression object is a state of some type \<open>'z\<close>, and
  the three operations the writer uses are parameters.
\<close>

record 'z zlib =
  compressobj :: "int \<Rightarrow> 'z"
  z_compress :: "'z \<Rightarrow> bytes \<Rightarrow> bytes \<times> 'z"
  z_flush :: "'z \<Rightarrow> bytes \<times> 'z"

definition MAX_WBITS :: int where
  "MAX_WBITS = 15"

subsection \<open>PayloadWriter\<close>

text \<open>
  The fields of the class, and \<open>w_wire\<close>: the arguments of the \<open>transport.write\<close>
  calls made by this writer, oldest first. \<open>_drain_waiter\<close> is \<open>None\<close> or a future.
  \<open>length\<close> is \<open>None\<close> or the number of body bytes still allowed, a byte count.
\<close>

datatype future = Pending | Finished

record 'z PayloadWriter =
  w_stream :: stream
  w_transport :: "transport option"
  w_length :: "nat option"
  w_chunked :: bool
  w_buffer_size :: nat
  w_output_size :: nat
  w_eof :: bool
  w_buffer :: "bytes list"
  w_compress :: "'z option"
  w_drain_waiter :: "future option"
  w_wire :: "bytes list"

definition PayloadWriter_init :: "stream \<Rightarrow> bool \<Rightarrow> 'z PayloadWriter" where
  "PayloadWriter_init strm acq =
     (let w = \<lparr>w_stream = strm, w_transport = None, w_length = None, w_chunked = False,
                w_buffer_size = 0, w_output_size = 0, w_eof = False, w_buffer = [],
                w_compress = None, w_drain_waiter = None, w_wire = []\<rparr>
      in if s_available strm then
           w\<lparr>w_transport := s_transport strm, w_stream := strm\<lparr>s_available := False\<rparr>\<rparr>
         else if acq then w\<lparr>w_stream := acquire strm\<rparr>
         else w)"

text \<open>
  \<open>set_transport\<close> returns the writer and whether a pending drain waiter was given
  its result, which resumes the coroutine suspended on it.
\<close>

definition set_transport :: "'z PayloadWriter \<Rightarrow> transport \<Rightarrow> 'z PayloadWriter \<times> bool" where
  "set_transport w0 tr =
     (let w = w0\<lparr>w_transport := Some tr\<rparr>;
          chunk = concat (w_buffer w);
          w = (if chunk \<noteq> [] then w\<lparr>w_wire := w_wire w @ [chunk], w_buffer := []\<rparr> else w)
      in case w_drain_waiter w of
           None \<Rightarrow> (w, False)
         | Some waiter \<Rightarrow> (w\<lparr>w_drain_waiter := None\<rparr>, waiter = Pending))"

definition enable_chunking :: "'z PayloadWriter \<Rightarrow> 'z PayloadWriter" where
  "enable_chunking w = w\<lparr>w_chunked := True\<rparr>"

definition enable_compression :: "'z zlib \<Rightarrow> 'z PayloadWriter \<Rightarrow> string \<Rightarrow> 'z PayloadWriter" where
  "enable_compression Z w encoding =
     (let zlib_mode = (if encoding = ''gzip'' then 16 + MAX_WBITS else - MAX_WBITS)
      in w\<lparr>w_compress := Some (compressobj Z zlib_mode)\<rparr>)"

definition buffer_data :: "'z PayloadWriter \<Rightarrow> bytes \<Rightarrow> 'z PayloadWriter" where
  "buffer_data w chunk =
     (if chunk \<noteq> [] then
        (let size = length chunk
         in w\<lparr>w_buffer_size := w_buffer_size w + size,
              w_output_size := w_output_size w + size,
              w_buffer := w_buffer w @ [chunk]\<rparr>)
      else w)"

text \<open>\<open>_write\<close>.\<close>

definition write_chunk :: "'z PayloadWriter \<Rightarrow> bytes \<Rightarrow> 'z PayloadWriter" where
  "write_chunk w0 chunk =
     (let size = length chunk;
          w = w0\<lparr>w_buffer_size := w_buffer_size w0 + size,
                 w_output_size := w_output_size w0 + size\<rparr>
      in case w_transport w of
           Some tr \<Rightarrow>
             (if w_buffer w \<noteq> [] then
                w\<lparr>w_wire := w_wire w @ [concat (w_buffer w @ [chunk])], w_buffer := []\<rparr>
              else w\<lparr>w_wire := w_wire w @ [chunk]\<rparr>)
         | None \<Rightarrow> w\<lparr>w_buffer := w_buffer w @ [chunk]\<rparr>)"

text \<open>
  \<open>write\<close> (here \<open>write_payload\<close>; \<open>write_chunk\<close> above is \<open>_write\<close>) returns
  \<open>noop()\<close> or the coroutine \<open>self.drain()\<close>, which does nothing until the caller
  awaits it. The three stages are the three \<open>if\<close> blocks of the source; each early
  \<open>return noop()\<close> is the \<open>None\<close> of its stage.
\<close>

datatype write_result = Noop | Drain_coroutine

definition write_compress ::
  "'z zlib \<Rightarrow> 'z PayloadWriter \<Rightarrow> bytes \<Rightarrow> 'z PayloadWriter \<times> bytes option" where
  "write_compress Z w chunk =
     (case w_compress w of
        None \<Rightarrow> (w, Some chunk)
      | Some z \<Rightarrow>
          (let (chunk', z') = z_compress Z z chunk;
               w' = w\<lparr>w_compress := Some z'\<rparr>
           in if chunk' = [] then (w', None) else (w', Some chunk')))"

definition write_clamp :: "'z PayloadWriter \<Rightarrow> bytes \<Rightarrow> 'z PayloadWriter \<times> bytes option" where
  "write_clamp w chunk =
     (case w_length w of
        None \<Rightarrow> (w, Some chunk)
      | Some len \<Rightarrow>
          (let chunk_len = length chunk
           in if len \<ge> chunk_len then (w\<lparr>w_length := Some (len - chunk_len)\<rparr>, Some chunk)
              else (let chunk' = take len chunk;
                        w' = w\<lparr>w_length := Some 0\<rparr>
                    in if chunk' = [] then (w', None) else (w', Some chunk'))))"

definition write_payload ::
  "'z zlib \<Rightarrow> 'z PayloadWriter \<Rightarrow> bytes \<Rightarrow> bool \<Rightarrow> nat \<Rightarrow> write_result \<times> 'z PayloadWriter" where
  "write_payload Z w0 chunk0 drain_flag LIMIT =
     (case write_compress Z w0 chunk0 of
        (w1, None) \<Rightarrow> (Noop, w1)
      | (w1, Some chunk1) \<Rightarrow>
          (case write_clamp w1 chunk1 of
             (w2, None) \<Rightarrow> (Noop, w2)
           | (w2, Some chunk2) \<Rightarrow>
               (if chunk2 \<noteq> [] then
                  (let chunk3 =
                         (if w_chunked w2 then
                            (let chunk_len = hex (length chunk2) @ CRLF
                             in chunk_len @ chunk2 @ CRLF)
                          else chunk2);
                       w3 = write_chunk w2 chunk3
                   in if w_buffer_size w3 > LIMIT \<and> drain_flag then
                        (Drain_coroutine, w3\<lparr>w_buffer_size := 0\<rparr>)
                      else (Noop, w3))
                else (Noop, w2))))"

definition LIMIT_default :: nat where
  "LIMIT_default = 64 * 1024"

text \<open>
  A coroutine either returns or is left suspended at a \<open>yield from\<close> on a future
  that nothing has resolved yet; in both cases the writer is as the coroutine left it.
  \<open>self._stream.drain()\<close> belongs to the stream and does not touch the writer.
\<close>

datatype 'a awaited = Returned 'a | Suspended 'a

definition drain :: "'z PayloadWriter \<Rightarrow> bool \<Rightarrow> 'z PayloadWriter awaited" where
  "drain w is_last =
     (case w_transport w of
        Some tr \<Rightarrow>
          (if w_buffer w \<noteq> [] then
             (let w' = w\<lparr>w_wire := w_wire w @ [concat (w_buffer w)]\<rparr>
              in Returned (if \<not> is_last then w'\<lparr>w_buffer := []\<rparr> else w'))
           else Returned w)
      | None \<Rightarrow>
          (case w_drain_waiter w of
             None \<Rightarrow> Suspended (w\<lparr>w_drain_waiter := Some Pending\<rparr>)
           | Some Pending \<Rightarrow> Suspended w
           | Some Finished \<Rightarrow> Returned w))"

text \<open>The chunk \<open>write_eof\<close> buffers: the two branches on \<open>self._compress\<close>.\<close>

definition write_eof_chunk ::
  "'z zlib \<Rightarrow> 'z PayloadWriter \<Rightarrow> bytes \<Rightarrow> 'z PayloadWriter \<times> bytes" where
  "write_eof_chunk Z w chunk =
     (case w_compress w of
        Some z \<Rightarrow>
          (let (chunk1, z1) = (if chunk \<noteq> [] then z_compress Z z chunk else (chunk, z));
               (rest, z2) = z_flush Z z1;
               chunk2 = chunk1 @ rest;
               w' = w\<lparr>w_compress := Some z2\<rparr>
           in if chunk2 \<noteq> [] \<and> w_chunked w then
                (let chunk_len = hex (length chunk2) @ CRLF
                 in (w', chunk_len @ chunk2 @ CRLF @ ''0'' @ CRLF @ CRLF))
              else (w', chunk2))
      | None \<Rightarrow>
          (if w_chunked w then
             (if chunk \<noteq> [] then
                (let chunk_len = hex (length chunk) @ CRLF
                 in (w, chunk_len @ chunk @ CRLF @ ''0'' @ CRLF @ CRLF))
              else (w, ''0'' @ CRLF @ CRLF))
           else (w, chunk)))"

text \<open>The statements of \<open>write_eof\<close> after \<open>yield from self.drain(True)\<close>.\<close>

definition write_eof_finish :: "'z PayloadWriter \<Rightarrow> 'z PayloadWriter" where
  "write_eof_finish w = w\<lparr>w_eof := True, w_transport := None, w_stream := release (w_stream w)\<rparr>"

definition write_eof :: "'z zlib \<Rightarrow> 'z PayloadWriter \<Rightarrow> bytes \<Rightarrow> 'z PayloadWriter awaited" where
  "write_eof Z w chunk =
     (if w_eof w then Returned w
      else
        (let (w1, chunk1) = write_eof_chunk Z w chunk;
             w2 = (if chunk1 \<noteq> [] then buffer_data w1 chunk1 else w1)
         in case drain w2 True of
              Returned w3 \<Rightarrow> Returned (write_eof_finish w3)
            | Suspended w3 \<Rightarrow> Suspended w3))"

text \<open>
  A \<open>write_eof\<close> suspended in \<open>drain\<close> is resumed when \<open>set_transport\<close> resolves the
  waiter; \<open>drain\<close> then returns and the rest of \<open>write_eof\<close> runs.
\<close>

definition write_eof_resume :: "'z PayloadWriter \<Rightarrow> 'z PayloadWriter" where
  "write_eof_resume w = write_eof_finish w"

text \<open>The bytes passed to the transport so far, and those still queued in \<open>_buffer\<close>.\<close>

definition wire :: "'z PayloadWriter \<Rightarrow> bytes" where
  "wire w = concat (w_wire w)"

definition queued :: "'z PayloadWriter \<Rightarrow> bytes" where
  "queued w = concat (w_buffer w)"

subsection \<open>Concrete collaborators for the examples\<close>

text \<open>
  A stream that is available with a transport attached, one that has no transport
  yet, and a \<open>zlib\<close> whose operations leave the bytes as they are (the examples below
  never enable compression, so it is never called).
\<close>

definition attached_stream :: stream where
  "attached_stream =
     \<lparr>s_available = True, s_transport = Some 0, s_acquired = False, s_released = 0\<rparr>"

definition detached_stream :: stream where
  "detached_stream =
     \<lparr>s_available = False, s_transport = None, s_acquired = False, s_released = 0\<rparr>"

definition zlib_stored :: "unit zlib" where
  "zlib_stored =
     \<lparr>compressobj = (\<lambda>wbits. ()), z_compress = (\<lambda>z data. (data, z)),
      z_flush = (\<lambda>z. ([], z))\<rparr>"

section \<open>The fragment of Python's \<open>re\<close>, \<open>str\<close> and \<open>urllib\<close> the dispatcher uses\<close>

text \<open>
  \<open>web_urldispatcher.py\<close> builds regular expressions as text and hands them to the
  library module \<open>re\<close>. The library is modelled for the constructs the dispatcher's own
  patterns and the examples use: literals, escapes, \<open>.\<close>, character sets with ranges
  and negation, \<open>\d \w \s\<close>, \<open>^\<close>, \<open>$\<close>, greedy \<open>* + ?\<close>, alternation, and capturing,
  named and non-capturing groups. Any other construct is reported as \<open>Re_unsupported\<close>,
  never guessed at. Strings are byte strings, so the classes are the ASCII ones.
\<close>

subsection \<open>Characters\<close>

definition BACKSLASH :: char where
  "BACKSLASH = CHR 0x5C"

definition NEWLINE :: char where
  "NEWLINE = CHR 0x0A"

definition code :: "char \<Rightarrow> nat" where
  "code c = of_char c"

definition is_digit :: "char \<Rightarrow> bool" where
  "is_digit c = (48 \<le> code c \<and> code c \<le> 57)"

definition is_alpha :: "char \<Rightarrow> bool" where
  "is_alpha c = ((65 \<le> code c \<and> code c \<le> 90) \<or> (97 \<le> code c \<and> code c \<le> 122))"

definition is_alnum :: "char \<Rightarrow> bool" where
  "is_alnum c = (is_alpha c \<or> is_digit c)"

definition is_space :: "char \<Rightarrow> bool" where
  "is_space c = (code c = 32 \<or> (9 \<le> code c \<and> code c \<le> 13))"

text \<open>\<open>str.isidentifier\<close>, for ASCII text.\<close>

definition isidentifier :: "string \<Rightarrow> bool" where
  "isidentifier s =
     (case s of
        [] \<Rightarrow> False
      | c # cs \<Rightarrow> (is_alpha c \<or> c = CHR ''_'') \<and> list_all (\<lambda>x. is_alnum x \<or> x = CHR ''_'') cs)"

subsection \<open>Regular expressions\<close>

datatype cset = Digit | Word | Space

datatype citem = CChar char | CRange char char | CSet cset | CNotSet cset

fun in_cset :: "cset \<Rightarrow> char \<Rightarrow> bool" where
  "in_cset Digit c = is_digit c"
| "in_cset Word c = (is_alnum c \<or> c = CHR ''_'')"
| "in_cset Space c = is_space c"

fun citem_match :: "citem \<Rightarrow> char \<Rightarrow> bool" where
  "citem_match (CChar a) c = (c = a)"
| "citem_match (CRange a b) c = (code a \<le> code c \<and> code c \<le> code b)"
| "citem_match (CSet s) c = in_cset s c"
| "citem_match (CNotSet s) c = (\<not> in_cset s c)"

text \<open>
  \<open>r+\<close> is \<open>Seq r (Star r)\<close> and \<open>r?\<close> is \<open>Alt r Eps\<close>; alternatives and repetitions are
  tried in Python's order (left alternative first, longest repetition first).
\<close>

datatype regex =
    Eps
  | Lit char
  | Dot
  | Class bool "citem list"
  | Bol
  | Eol
  | Seq regex regex
  | Alt regex regex
  | Star regex
  | Group nat "string option" regex
  | NGroup regex

text \<open>A compiled pattern: the expression, \<open>groups\<close> and \<open>groupindex\<close>.\<close>

record pattern =
  p_regex :: regex
  p_groups :: nat
  p_groupindex :: "(string \<times> nat) list"

datatype re_error = Re_error string | Re_unsupported string

subsection \<open>Matching\<close>

text \<open>
  A matcher state is the position in the subject, the rest of the subject from there,
  and the groups captured so far. \<open>rmatch\<close> lists the states in which a match of the
  expression can end, in the order the backtracking matcher of \<open>re\<close> tries them; the
  match found is the first. A repetition stops when an iteration consumes nothing.
\<close>

type_synonym caps = "(nat \<times> string) list"

type_synonym mstate = "nat \<times> string \<times> caps"

definition set_cap :: "nat \<Rightarrow> string \<Rightarrow> caps \<Rightarrow> caps" where
  "set_cap i v c = (i, v) # filter (\<lambda>(j, u). j \<noteq> i) c"

fun rmatch :: "regex \<Rightarrow> mstate \<Rightarrow> mstate list" where
  "rmatch Eps st = [st]"
| "rmatch (Lit a) (p, s, c) =
     (case s of [] \<Rightarrow> [] | x # xs \<Rightarrow> if x = a then [(Suc p, xs, c)] else [])"
| "rmatch Dot (p, s, c) =
     (case s of [] \<Rightarrow> [] | x # xs \<Rightarrow> if x \<noteq> NEWLINE then [(Suc p, xs, c)] else [])"
| "rmatch (Class neg its) (p, s, c) =
     (case s of
        [] \<Rightarrow> []
      | x # xs \<Rightarrow> if list_ex (\<lambda>i. citem_match i x) its \<noteq> neg then [(Suc p, xs, c)] else [])"
| "rmatch Bol (p, s, c) = (if p = 0 then [(p, s, c)] else [])"
| "rmatch Eol (p, s, c) = (if s = [] \<or> s = [NEWLINE] then [(p, s, c)] else [])"
| "rmatch (Seq a b) st = concat (map (rmatch b) (rmatch a st))"
| "rmatch (Alt a b) st = rmatch a st @ rmatch b st"
| "rmatch (Star a) (p, s, c) =
     concat (map (\<lambda>(p', s', c'). if length s' < length s then rmatch (Star a) (p', s', c') else [])
                 (rmatch a (p, s, c)))
     @ [(p, s, c)]"
| "rmatch (Group i nm a) (p, s, c) =
     map (\<lambda>(p', s', c'). (p', s', set_cap i (take (p' - p) s) c')) (rmatch a (p, s, c))"
| "rmatch (NGroup a) st = rmatch a st"

declare rmatch.simps [simp del]


text \<open>
  \<open>pattern.match(string)\<close> matches at the start of the string; the result is the end
  of the match and its groups. \<open>pattern.search\<close> tries the start positions from left
  to right and also gives the start.
\<close>

definition re_match :: "pattern \<Rightarrow> string \<Rightarrow> (nat \<times> caps) option" where
  "re_match pat s =
     (case rmatch (p_regex pat) (0, s, []) of
        [] \<Rightarrow> None
      | (e, rest, c) # others \<Rightarrow> Some (e, c))"

fun search_from :: "regex \<Rightarrow> nat \<Rightarrow> string \<Rightarrow> (nat \<times> nat \<times> caps) option" where
  "search_from r p [] =
     (case rmatch r (p, [], []) of [] \<Rightarrow> None | (e, rest, c) # others \<Rightarrow> Some (p, e, c))"
| "search_from r p (x # xs) =
     (case rmatch r (p, x # xs, []) of
        [] \<Rightarrow> search_from r (Suc p) xs
      | (e, rest, c) # others \<Rightarrow> Some (p, e, c))"

definition re_search :: "pattern \<Rightarrow> string \<Rightarrow> (nat \<times> nat \<times> caps) option" where
  "re_search pat s = search_from (p_regex pat) 0 s"

text \<open>\<open>match.group(i)\<close> and \<open>match.groupdict()\<close>: a group that took no part is \<open>None\<close>.\<close>

definition group :: "caps \<Rightarrow> nat \<Rightarrow> string option" where
  "group c i = map_of c i"

definition groupdict :: "pattern \<Rightarrow> caps \<Rightarrow> (string \<times> string option) list" where
  "groupdict pat c = map (\<lambda>(nm, i). (nm, group c i)) (p_groupindex pat)"

text \<open>
  \<open>pattern.split(string)\<close>: the pieces between the matches, each match followed by
  its groups. A match that consumes nothing does not split (Python before 3.7, the
  version this code was written for; none of the dispatcher's patterns can match the
  empty string). \<open>piece\<close> is the text since the last split.
\<close>

function split_loop :: "pattern \<Rightarrow> nat \<Rightarrow> string \<Rightarrow> string \<Rightarrow> string option list" where
  "split_loop pat p [] piece = [Some piece]"
| "split_loop pat p (x # xs) piece =
     (case rmatch (p_regex pat) (p, x # xs, []) of
        [] \<Rightarrow> split_loop pat (Suc p) xs (piece @ [x])
      | (e, rest, c) # others \<Rightarrow>
          if length rest < length (x # xs) then
            Some piece # map (group c) [1..<Suc (p_groups pat)] @ split_loop pat e rest []
          else split_loop pat (Suc p) xs (piece @ [x]))"
  by pat_completeness auto
termination
  by (relation "measure (\<lambda>(pat, p, s, piece). length s)") auto

definition re_split :: "pattern \<Rightarrow> string \<Rightarrow> string option list" where
  "re_split pat s = split_loop pat 0 s []"

subsection \<open>Compiling\<close>

text \<open>The lexer reads one character at a time; its mode says what it is inside of.\<close>

datatype gkind = GCapture | GNamed string | GNonCapture

datatype token = TAtom regex | TStar | TPlus | TQuest | TBar | TOpen gkind | TClose

datatype raw = RChar char | RDash | RSet bool cset

datatype lmode =
    LNormal
  | LEscape
  | LOpen
  | LOpenQ
  | LOpenP
  | LName string
  | LClassStart
  | LClassFirst bool
  | LClass bool "raw list"
  | LClassEsc bool "raw list"

text \<open>The items of a character set; \<open>-\<close> between two characters is a range.\<close>

fun class_items :: "raw list \<Rightarrow> re_error + citem list" where
  "class_items [] = Inr []"
| "class_items (RChar a # RDash # RChar b # rest) =
     (if code a \<le> code b then
        (case class_items rest of Inl e \<Rightarrow> Inl e | Inr its \<Rightarrow> Inr (CRange a b # its))
      else Inl (Re_error ''bad character range''))"
| "class_items (RChar a # RDash # RSet n s # rest) = Inl (Re_error ''bad character range'')"
| "class_items (RSet n s # RDash # RChar b # rest) = Inl (Re_error ''bad character range'')"
| "class_items (RSet n s # RDash # RSet m t # rest) = Inl (Re_error ''bad character range'')"
| "class_items (RChar a # rest) =
     (case class_items rest of Inl e \<Rightarrow> Inl e | Inr its \<Rightarrow> Inr (CChar a # its))"
| "class_items (RDash # rest) =
     (case class_items rest of Inl e \<Rightarrow> Inl e | Inr its \<Rightarrow> Inr (CChar (CHR ''-'') # its))"
| "class_items (RSet n s # rest) =
     (case class_items rest of
        Inl e \<Rightarrow> Inl e
      | Inr its \<Rightarrow> Inr ((if n then CNotSet s else CSet s) # its))"

definition set_escape :: "char \<Rightarrow> (bool \<times> cset) option" where
  "set_escape c =
     (if c = CHR ''d'' then Some (False, Digit) else if c = CHR ''D'' then Some (True, Digit)
      else if c = CHR ''w'' then Some (False, Word) else if c = CHR ''W'' then Some (True, Word)
      else if c = CHR ''s'' then Some (False, Space) else if c = CHR ''S'' then Some (True, Space)
      else None)"

definition char_escape :: "char \<Rightarrow> re_error + char" where
  "char_escape c =
     (if c = CHR ''n'' then Inr NEWLINE
      else if c = CHR ''t'' then Inr (CHR 0x09)
      else if c = CHR ''r'' then Inr (CHR 0x0D)
      else if is_alnum c then Inl (Re_unsupported ''escape'')
      else Inr c)"

definition normal_char :: "char \<Rightarrow> re_error + token list \<times> lmode" where
  "normal_char c =
     (if c = BACKSLASH then Inr ([], LEscape)
      else if c = CHR ''['' then Inr ([], LClassStart)
      else if c = CHR ''('' then Inr ([], LOpen)
      else if c = CHR '')'' then Inr ([TClose], LNormal)
      else if c = CHR ''*'' then Inr ([TStar], LNormal)
      else if c = CHR ''+'' then Inr ([TPlus], LNormal)
      else if c = CHR ''?'' then Inr ([TQuest], LNormal)
      else if c = CHR ''|'' then Inr ([TBar], LNormal)
      else if c = CHR ''.'' then Inr ([TAtom Dot], LNormal)
      else if c = CHR ''^'' then Inr ([TAtom Bol], LNormal)
      else if c = CHR ''$'' then Inr ([TAtom Eol], LNormal)
      else if c = CHR ''{'' then Inl (Re_unsupported ''counted repetition'')
      else Inr ([TAtom (Lit c)], LNormal))"

definition class_char :: "bool \<Rightarrow> raw list \<Rightarrow> bool \<Rightarrow> char \<Rightarrow> re_error + token list \<times> lmode" where
  "class_char neg raws first c =
     (if c = CHR '']'' \<and> \<not> first then
        (case class_items raws of
           Inl e \<Rightarrow> Inl e
         | Inr its \<Rightarrow> Inr ([TAtom (Class neg its)], LNormal))
      else if c = BACKSLASH then Inr ([], LClassEsc neg raws)
      else if c = CHR ''-'' then Inr ([], LClass neg (raws @ [RDash]))
      else Inr ([], LClass neg (raws @ [RChar c])))"

fun lex_step :: "lmode \<Rightarrow> char \<Rightarrow> re_error + token list \<times> lmode" where
  "lex_step LNormal c = normal_char c"
| "lex_step LEscape c =
     (case set_escape c of
        Some (n, s) \<Rightarrow> Inr ([TAtom (Class n [CSet s])], LNormal)
      | None \<Rightarrow>
          (case char_escape c of Inl e \<Rightarrow> Inl e | Inr x \<Rightarrow> Inr ([TAtom (Lit x)], LNormal)))"
| "lex_step LOpen c =
     (if c = CHR ''?'' then Inr ([], LOpenQ)
      else (case normal_char c of Inl e \<Rightarrow> Inl e | Inr (ts, m) \<Rightarrow> Inr (TOpen GCapture # ts, m)))"
| "lex_step LOpenQ c =
     (if c = CHR ''P'' then Inr ([], LOpenP)
      else if c = CHR '':'' then Inr ([TOpen GNonCapture], LNormal)
      else Inl (Re_unsupported ''group extension''))"
| "lex_step LOpenP c =
     (if c = CHR ''<'' then Inr ([], LName []) else Inl (Re_unsupported ''group extension''))"
| "lex_step (LName nm) c =
     (if c = CHR ''>'' then
        (if isidentifier nm then Inr ([TOpen (GNamed nm)], LNormal)
         else Inl (Re_error ''bad character in group name''))
      else Inr ([], LName (nm @ [c])))"
| "lex_step LClassStart c =
     (if c = CHR ''^'' then Inr ([], LClassFirst True) else class_char False [] True c)"
| "lex_step (LClassFirst neg) c = class_char neg [] True c"
| "lex_step (LClass neg raws) c = class_char neg raws False c"
| "lex_step (LClassEsc neg raws) c =
     (case set_escape c of
        Some (n, s) \<Rightarrow> Inr ([], LClass neg (raws @ [RSet n s]))
      | None \<Rightarrow>
          (case char_escape c of
             Inl e \<Rightarrow> Inl e
           | Inr x \<Rightarrow> Inr ([], LClass neg (raws @ [RChar x]))))"

fun lex :: "lmode \<Rightarrow> string \<Rightarrow> re_error + token list" where
  "lex m [] =
     (case m of
        LNormal \<Rightarrow> Inr []
      | LEscape \<Rightarrow> Inl (Re_error ''bad escape (end of pattern)'')
      | LOpen \<Rightarrow> Inl (Re_error ''missing ), unterminated subpattern'')
      | LOpenQ \<Rightarrow> Inl (Re_error ''unexpected end of pattern'')
      | LOpenP \<Rightarrow> Inl (Re_error ''unexpected end of pattern'')
      | LName nm \<Rightarrow> Inl (Re_error ''missing >, unterminated name'')
      | LClassStart \<Rightarrow> Inl (Re_error ''unterminated character set'')
      | LClassFirst neg \<Rightarrow> Inl (Re_error ''unterminated character set'')
      | LClass neg raws \<Rightarrow> Inl (Re_error ''unterminated character set'')
      | LClassEsc neg raws \<Rightarrow> Inl (Re_error ''bad escape (end of pattern)''))"
| "lex m (c # cs) =
     (case lex_step m c of
        Inl e \<Rightarrow> Inl e
      | Inr (ts, m') \<Rightarrow> (case lex m' cs of Inl e \<Rightarrow> Inl e | Inr rest \<Rightarrow> Inr (ts @ rest)))"

text \<open>
  The parser keeps the groups that are open as a stack of frames: the alternatives
  finished so far, the sequence being read, and whether its last item is already a
  repetition (a second repetition sign would be a lazy or a multiple repeat).
\<close>

record frame =
  f_kind :: gkind
  f_index :: nat
  f_alts :: "regex list"
  f_seq :: "regex list"
  f_repeated :: bool

record pstate =
  ps_stack :: "frame list"
  ps_cur :: frame
  ps_groups :: nat
  ps_names :: "(string \<times> nat) list"

fun mkseq :: "regex list \<Rightarrow> regex" where
  "mkseq [] = Eps"
| "mkseq [r] = r"
| "mkseq (r # rs) = Seq r (mkseq rs)"

fun mkalt :: "regex list \<Rightarrow> regex" where
  "mkalt [] = Eps"
| "mkalt [r] = r"
| "mkalt (r # rs) = Alt r (mkalt rs)"

definition frame_body :: "frame \<Rightarrow> regex" where
  "frame_body f = mkalt (f_alts f @ [mkseq (f_seq f)])"

definition new_frame :: "gkind \<Rightarrow> nat \<Rightarrow> frame" where
  "new_frame k i = \<lparr>f_kind = k, f_index = i, f_alts = [], f_seq = [], f_repeated = False\<rparr>"

definition repeat :: "(regex \<Rightarrow> regex) \<Rightarrow> pstate \<Rightarrow> re_error + pstate" where
  "repeat f st =
     (let cur = ps_cur st
      in case rev (f_seq cur) of
           [] \<Rightarrow> Inl (Re_error ''nothing to repeat'')
         | r # earlier \<Rightarrow>
             if f_repeated cur then Inl (Re_unsupported ''lazy or multiple repeat'')
             else if r = Bol \<or> r = Eol then Inl (Re_unsupported ''repeated anchor'')
             else Inr (st\<lparr>ps_cur := cur\<lparr>f_seq := rev earlier @ [f r], f_repeated := True\<rparr>\<rparr>))"

fun parse_step :: "pstate \<Rightarrow> token \<Rightarrow> re_error + pstate" where
  "parse_step st (TAtom a) =
     Inr (st\<lparr>ps_cur := (ps_cur st)\<lparr>f_seq := f_seq (ps_cur st) @ [a], f_repeated := False\<rparr>\<rparr>)"
| "parse_step st TStar = repeat (\<lambda>r. Star r) st"
| "parse_step st TPlus = repeat (\<lambda>r. Seq r (Star r)) st"
| "parse_step st TQuest = repeat (\<lambda>r. Alt r Eps) st"
| "parse_step st TBar =
     Inr (st\<lparr>ps_cur := (ps_cur st)\<lparr>f_alts := f_alts (ps_cur st) @ [mkseq (f_seq (ps_cur st))],
                                   f_seq := [], f_repeated := False\<rparr>\<rparr>)"
| "parse_step st (TOpen GNonCapture) =
     Inr (st\<lparr>ps_stack := ps_cur st # ps_stack st, ps_cur := new_frame GNonCapture 0\<rparr>)"
| "parse_step st (TOpen GCapture) =
     Inr (st\<lparr>ps_stack := ps_cur st # ps_stack st,
             ps_cur := new_frame GCapture (Suc (ps_groups st)),
             ps_groups := Suc (ps_groups st)\<rparr>)"
| "parse_step st (TOpen (GNamed nm)) =
     (if nm \<in> set (map fst (ps_names st)) then Inl (Re_error ''redefinition of group name'')
      else Inr (st\<lparr>ps_stack := ps_cur st # ps_stack st,
                  ps_cur := new_frame (GNamed nm) (Suc (ps_groups st)),
                  ps_groups := Suc (ps_groups st),
                  ps_names := ps_names st @ [(nm, Suc (ps_groups st))]\<rparr>))"
| "parse_step st TClose =
     (case ps_stack st of
        [] \<Rightarrow> Inl (Re_error ''unbalanced parenthesis'')
      | parent # stack \<Rightarrow>
          (let cur = ps_cur st;
               node = (case f_kind cur of
                         GNonCapture \<Rightarrow> NGroup (frame_body cur)
                       | GCapture \<Rightarrow> Group (f_index cur) None (frame_body cur)
                       | GNamed nm \<Rightarrow> Group (f_index cur) (Some nm) (frame_body cur))
           in Inr (st\<lparr>ps_stack := stack,
                      ps_cur := parent\<lparr>f_seq := f_seq parent @ [node], f_repeated := False\<rparr>\<rparr>)))"

fun parse :: "pstate \<Rightarrow> token list \<Rightarrow> re_error + pattern" where
  "parse st [] =
     (if ps_stack st \<noteq> [] then Inl (Re_error ''missing ), unterminated subpattern'')
      else Inr \<lparr>p_regex = frame_body (ps_cur st), p_groups = ps_groups st,
                p_groupindex = ps_names st\<rparr>)"
| "parse st (t # ts) = (case parse_step st t of Inl e \<Rightarrow> Inl e | Inr st' \<Rightarrow> parse st' ts)"

definition re_compile :: "string \<Rightarrow> re_error + pattern" where
  "re_compile s =
     (case lex LNormal s of
        Inl e \<Rightarrow> Inl e
      | Inr ts \<Rightarrow>
          parse \<lparr>ps_stack = [], ps_cur = new_frame GNonCapture 0, ps_groups = 0, ps_names = []\<rparr> ts)"

text \<open>
  \<open>re.escape\<close> as it was before Python 3.7: every character that is not an ASCII
  letter, a digit or \<open>_\<close> gets a backslash (NUL becomes \<open>\000\<close>). Later versions escape
  fewer characters; the escaped text matches the same strings.
\<close>

definition escape_char :: "char \<Rightarrow> string" where
  "escape_char c =
     (if is_alnum c \<or> c = CHR ''_'' then [c]
      else if c = CHR 0x00 then [BACKSLASH, CHR ''0'', CHR ''0'', CHR ''0'']
      else [BACKSLASH, c])"

definition re_escape :: "string \<Rightarrow> string" where
  "re_escape s = concat (map escape_char s)"

subsection \<open>\<open>urllib.parse.unquote\<close>\<close>

definition hex_value :: "char \<Rightarrow> nat option" where
  "hex_value c =
     (if is_digit c then Some (code c - 48)
      else if 97 \<le> code c \<and> code c \<le> 102 then Some (code c - 87)
      else if 65 \<le> code c \<and> code c \<le> 70 then Some (code c - 55)
      else None)"

text \<open>
  Each \<open>%XX\<close> with two hexadecimal digits becomes the byte \<open>XX\<close>; any other \<open>%\<close> stays.
  The strings here are byte strings, so the UTF-8 decoding that follows in Python is
  the identity on them (Python replaces ill-formed UTF-8 by U+FFFD, which is not
  modelled).
\<close>

fun unquote :: "string \<Rightarrow> string" where
  "unquote (c # a # b # rest) =
     (if c = CHR ''%'' then
        (case (hex_value a, hex_value b) of
           (Some h, Some l) \<Rightarrow> char_of (16 * h + l) # unquote rest
         | _ \<Rightarrow> c # unquote (a # b # rest))
      else c # unquote (a # b # rest))"
| "unquote s = s"

section \<open>web\_urldispatcher.py\<close>

subsection \<open>Resources and routes\<close>

text \<open>
  A resource has an optional name and is plain (an exact path) or dynamic (a compiled
  pattern and the formatter for \<open>url\<close>). A dict is the list of its items.
\<close>

datatype resource =
    PlainResource "string option" string
  | DynamicResource "string option" pattern string

fun resource_name :: "resource \<Rightarrow> string option" where
  "resource_name (PlainResource nm path) = nm"
| "resource_name (DynamicResource nm pat formatter) = nm"

text \<open>
  The dict comprehension of \<open>DynamicResource.match\<close>: \<open>unquote\<close> of a group that took no
  part in the match (\<open>None\<close>) raises \<open>TypeError\<close>.
\<close>

fun unquote_items :: "(string \<times> string option) list \<Rightarrow> error + (string \<times> string) list" where
  "unquote_items [] = Inr []"
| "unquote_items ((key, None) # rest) = Inl TypeError"
| "unquote_items ((key, Some v) # rest) =
     (case unquote_items rest of Inl e \<Rightarrow> Inl e | Inr d \<Rightarrow> Inr ((key, unquote v) # d))"

text \<open>\<open>match\<close>: \<open>Inr None\<close> is the \<open>None\<close> of a path that does not match.\<close>

fun resource_match :: "resource \<Rightarrow> string \<Rightarrow> error + (string \<times> string) list option" where
  "resource_match (PlainResource nm p) path = (if p = path then Inr (Some []) else Inr None)"
| "resource_match (DynamicResource nm pat formatter) path =
     (case re_match pat path of
        None \<Rightarrow> Inr None
      | Some (e, c) \<Rightarrow>
          (case unquote_items (groupdict pat c) of Inl err \<Rightarrow> Inl err | Inr d \<Rightarrow> Inr (Some d)))"

text \<open>A handler is opaque here.\<close>

type_synonym handler = nat

record route =
  rt_method :: string
  rt_handler :: handler
  rt_resource :: resource

subsection \<open>UrlDispatcher\<close>

record UrlDispatcher =
  d_resources :: "resource list"
  d_named_resources :: "string \<rightharpoonup> resource"

definition UrlDispatcher_init :: UrlDispatcher where
  "UrlDispatcher_init = \<lparr>d_resources = [], d_named_resources = Map.empty\<rparr>"

text \<open>
  A pattern compiled when the class is created. Each of the four below does compile
  (lemma \<open>class_patterns\<close>); the other branch is a pattern that matches nothing.
\<close>

definition compiled :: "string \<Rightarrow> pattern" where
  "compiled s =
     (case re_compile s of
        Inr p \<Rightarrow> p
      | Inl e \<Rightarrow> \<lparr>p_regex = Class False [], p_groups = 0, p_groupindex = []\<rparr>)"

definition DYN :: pattern where
  "DYN = compiled (''^'' @ [BACKSLASH] @ ''{(?P<var>[a-zA-Z][_a-zA-Z0-9]*)'' @ [BACKSLASH] @ ''}$'')"

definition DYN_WITH_RE :: pattern where
  "DYN_WITH_RE =
     compiled (''^'' @ [BACKSLASH] @ ''{(?P<var>[a-zA-Z][_a-zA-Z0-9]*):(?P<re>.+)''
               @ [BACKSLASH] @ ''}$'')"

definition GOOD :: string where
  "GOOD = ''[^{}/]+''"

definition ROUTE_RE :: pattern where
  "ROUTE_RE =
     compiled (''('' @ [BACKSLASH] @ ''{[_a-zA-Z][^{}]*(?:'' @ [BACKSLASH] @ ''{[^{}]*''
               @ [BACKSLASH] @ ''}[^{}]*)*'' @ [BACKSLASH] @ ''})'')"

definition NAME_SPLIT_RE :: pattern where
  "NAME_SPLIT_RE = compiled ''[.:-]''"

text \<open>
  \<open>hdrs\<close> is not among the sources.
  Modelled from the spec: \<open>hdrs.METH_ANY\<close>, the ANY wildcard, which aiohttp spells \<open>*\<close>.
\<close>

definition METH_ANY :: string where
  "METH_ANY = ''*''"

text \<open>
  What \<open>resolve\<close> returns: \<open>UrlMappingMatchInfo(match_dict, route)\<close>,
  \<open>_NotFoundMatchInfo()\<close> or \<open>_MethodNotAllowedMatchInfo(method, allowed_methods)\<close>.
\<close>

datatype match_info =
    UrlMappingMatchInfo "(string \<times> string) list" route
  | NotFoundMatchInfo
  | MethodNotAllowedMatchInfo string "string set"

text \<open>
  The body of the loop of \<open>resolve\<close> reads the name \<open>route\<close>. The function never
  assigns it (the loop variable is \<open>resource\<close>) and it has no parameter of that name,
  so Python looks it up among the globals of the module and then the builtins. The
  module \<open>web_urldispatcher\<close> binds no global \<open>route\<close> (it has no star import either),
  so the lookup raises \<open>NameError\<close>.
\<close>

definition global_route :: "route option" where
  "global_route = None"

fun resolve_loop ::
  "resource list \<Rightarrow> string \<Rightarrow> string \<Rightarrow> string set \<Rightarrow> error + match_info" where
  "resolve_loop [] path method allowed_methods =
     (if allowed_methods \<noteq> {} then Inr (MethodNotAllowedMatchInfo method allowed_methods)
      else Inr NotFoundMatchInfo)"
| "resolve_loop (res # rest) path method allowed_methods =
     (case resource_match res path of
        Inl e \<Rightarrow> Inl e
      | Inr None \<Rightarrow> resolve_loop rest path method allowed_methods
      | Inr (Some match_dict) \<Rightarrow>
          (case global_route of
             None \<Rightarrow> Inl (NameError ''route'')
           | Some rt \<Rightarrow>
               (let route_method = rt_method rt
                in if route_method = method \<or> route_method = METH_ANY then
                     Inr (UrlMappingMatchInfo match_dict rt)
                   else resolve_loop rest path method (insert route_method allowed_methods))))"

text \<open>\<open>resolve(request)\<close>, with \<open>request.raw_path\<close> and \<open>request.method\<close>.\<close>

definition resolve :: "UrlDispatcher \<Rightarrow> string \<Rightarrow> string \<Rightarrow> error + match_info" where
  "resolve d path method = resolve_loop (d_resources d) path method {}"

text \<open>\<open>keyword.kwlist\<close> of Python 3.5.\<close>

definition kwlist :: "string list" where
  "kwlist =
     [''False'', ''None'', ''True'', ''and'', ''as'', ''assert'', ''break'', ''class'',
      ''continue'', ''def'', ''del'', ''elif'', ''else'', ''except'', ''finally'', ''for'',
      ''from'', ''global'', ''if'', ''import'', ''in'', ''is'', ''lambda'', ''nonlocal'',
      ''not'', ''or'', ''pass'', ''raise'', ''return'', ''try'', ''while'', ''with'', ''yield'']"

definition iskeyword :: "string \<Rightarrow> bool" where
  "iskeyword s = (s \<in> set kwlist)"

text \<open>
  The loop over the parts of a name in \<open>_reg_resource\<close>. A part is a \<open>str\<close>:
  \<open>NAME_SPLIT_RE\<close> has no group, so \<open>split\<close> yields no \<open>None\<close>.
\<close>

fun check_parts :: "string option list \<Rightarrow> string \<Rightarrow> error + unit" where
  "check_parts [] nm = Inr ()"
| "check_parts (None # parts) nm = Inl TypeError"
| "check_parts (Some part # parts) nm =
     (if \<not> isidentifier part \<or> iskeyword part then Inl (ValueError (Incorrect_route_name nm))
      else check_parts parts nm)"

text \<open>
  \<open>_reg_resource\<close>. The \<open>assert isinstance(resource, Resource)\<close> is the type of the
  argument. The outcome comes with the dispatcher as the call leaves it.
\<close>

definition reg_resource :: "UrlDispatcher \<Rightarrow> resource \<Rightarrow> (error + unit) \<times> UrlDispatcher" where
  "reg_resource d res =
     (case resource_name res of
        None \<Rightarrow> (Inr (), d\<lparr>d_resources := d_resources d @ [res]\<rparr>)
      | Some nm \<Rightarrow>
          (case check_parts (re_split NAME_SPLIT_RE nm) nm of
             Inl e \<Rightarrow> (Inl e, d)
           | Inr u \<Rightarrow>
               (if nm \<in> dom (d_named_resources d) then (Inl (ValueError (Duplicate_name nm)), d)
                else (Inr (), d\<lparr>d_named_resources := (d_named_resources d)(nm \<mapsto> res),
                                d_resources := d_resources d @ [res]\<rparr>))))"

text \<open>
  The loop of \<open>add_resource\<close> over \<open>ROUTE_RE.split(path)\<close>, building \<open>pattern\<close> and
  \<open>formatter\<close>. \<open>named\<close> is \<open>match.group(name)\<close>.
\<close>

definition named :: "pattern \<Rightarrow> caps \<Rightarrow> string \<Rightarrow> string option" where
  "named pat c nm = (case map_of (p_groupindex pat) nm of None \<Rightarrow> None | Some i \<Rightarrow> group c i)"

fun add_resource_loop ::
  "string option list \<Rightarrow> string \<Rightarrow> string \<Rightarrow> string \<Rightarrow> error + string \<times> string" where
  "add_resource_loop [] path pat formatter = Inr (pat, formatter)"
| "add_resource_loop (None # parts) path pat formatter = Inl TypeError"
| "add_resource_loop (Some part # parts) path pat formatter =
     (case re_match DYN part of
        Some (e, c) \<Rightarrow>
          (case named DYN c ''var'' of
             None \<Rightarrow> Inl TypeError
           | Some var \<Rightarrow>
               add_resource_loop parts path
                 (pat @ ''(?P<'' @ var @ ''>'' @ GOOD @ '')'') (formatter @ ''{'' @ var @ ''}''))
      | None \<Rightarrow>
          (case re_match DYN_WITH_RE part of
             Some (e, c) \<Rightarrow>
               (case (named DYN_WITH_RE c ''var'', named DYN_WITH_RE c ''re'') of
                  (Some var, Some re) \<Rightarrow>
                    add_resource_loop parts path
                      (pat @ ''(?P<'' @ var @ ''>'' @ re @ '')'') (formatter @ ''{'' @ var @ ''}'')
                | _ \<Rightarrow> Inl TypeError)
           | None \<Rightarrow>
               (if CHR ''{'' \<in> set part \<or> CHR ''}'' \<in> set part then
                  Inl (ValueError (Invalid_path path part))
                else add_resource_loop parts path (pat @ re_escape part) (formatter @ part))))"

text \<open>
  The dynamic branch of \<open>add_resource\<close> registers with \<open>self.register_resource\<close>. The
  class \<open>UrlDispatcher\<close> has no attribute of that name: its body defines \<open>register_route\<close>
  and \<open>_reg_resource\<close>, \<open>__init__\<close> sets only \<open>_resources\<close> and \<open>_named_resources\<close>, and
  its bases \<open>AbstractRouter\<close> and \<open>collections.abc.Mapping\<close> are the interfaces of
  \<open>resolve\<close> and of a read-only mapping. The attribute lookup raises \<open>AttributeError\<close>.
\<close>

definition UrlDispatcher_register_resource ::
  "(UrlDispatcher \<Rightarrow> resource \<Rightarrow> (error + unit) \<times> UrlDispatcher) option" where
  "UrlDispatcher_register_resource = None"

text \<open>
  \<open>add_resource\<close>. The plain branch registers with \<open>self._reg_resource\<close>; the dynamic
  branch builds and compiles the pattern, makes the resource and then looks up
  \<open>self.register_resource\<close>.
\<close>

definition add_resource ::
  "UrlDispatcher \<Rightarrow> string \<Rightarrow> string option \<Rightarrow> (error + resource) \<times> UrlDispatcher" where
  "add_resource d path nm =
     (if \<not> (case path of [] \<Rightarrow> False | c # cs \<Rightarrow> c = CHR ''/'') then
        (Inl (ValueError Path_should_start_with_slash), d)
      else if \<not> (CHR ''{'' \<in> set path \<or> CHR ''}'' \<in> set path \<or> re_search ROUTE_RE path \<noteq> None)
      then
        (let res = PlainResource nm path
         in case reg_resource d res of
              (Inl e, d') \<Rightarrow> (Inl e, d')
            | (Inr u, d') \<Rightarrow> (Inr res, d'))
      else
        (case add_resource_loop (re_split ROUTE_RE path) path [] [] of
           Inl e \<Rightarrow> (Inl e, d)
         | Inr (pat, formatter) \<Rightarrow>
             (case re_compile (''^'' @ pat @ ''$'') of
                Inl (Re_error msg) \<Rightarrow> (Inl (ValueError (Bad_pattern pat)), d)
              | Inl (Re_unsupported what) \<Rightarrow> (Inl (Unmodelled what), d)
              | Inr cpat \<Rightarrow>
                  (let res = DynamicResource nm cpat formatter
                   in case UrlDispatcher_register_resource of
                        None \<Rightarrow> (Inl (AttributeError ''register_resource''), d)
                      | Some register_resource \<Rightarrow>
                          (case register_resource d res of
                             (Inl e, d') \<Rightarrow> (Inl e, d')
                           | (Inr u, d') \<Rightarrow> (Inr res, d'))))))"

subsection \<open>The operating system, as far as the static route sees it\<close>

text \<open>
  \<open>posixpath.join\<close>, \<open>normpath\<close> and \<open>abspath\<close> are text functions and are written out.
  The file system is a parameter: what lies at an absolute, normalised path. Symbolic
  links are not modelled. \<open>st_mtime\<close> and \<open>datetime.timestamp()\<close> are floats, compared
  here as the real numbers they denote.
\<close>

definition startswith :: "string \<Rightarrow> string \<Rightarrow> bool" where
  "startswith s pre = (take (length pre) s = pre)"

definition endswith :: "string \<Rightarrow> string \<Rightarrow> bool" where
  "endswith s suf = (length suf \<le> length s \<and> drop (length s - length suf) s = suf)"

text \<open>\<open>s.split('/')\<close>.\<close>

fun split_sep :: "string \<Rightarrow> string list" where
  "split_sep [] = [[]]"
| "split_sep (c # cs) =
     (if c = CHR ''/'' then [] # split_sep cs
      else (case split_sep cs of [] \<Rightarrow> [[c]] | w # ws \<Rightarrow> (c # w) # ws))"

text \<open>\<open>'/'.join(comps)\<close>.\<close>

fun join_sep :: "string list \<Rightarrow> string" where
  "join_sep [] = []"
| "join_sep [w] = w"
| "join_sep (w # ws) = w @ ''/'' @ join_sep ws"

text \<open>\<open>os.path.join(a, b)\<close>.\<close>

definition path_join :: "string \<Rightarrow> string \<Rightarrow> string" where
  "path_join a b =
     (if startswith b ''/'' then b
      else if a = [] \<or> endswith a ''/'' then a @ b
      else a @ ''/'' @ b)"

text \<open>The loop of \<open>normpath\<close> over the components; \<open>new_comps\<close> is the list built so far.\<close>

fun normpath_loop :: "string list \<Rightarrow> nat \<Rightarrow> string list \<Rightarrow> string list" where
  "normpath_loop [] initial_slashes new_comps = new_comps"
| "normpath_loop (cmp # comps) initial_slashes new_comps =
     (if cmp = [] \<or> cmp = ''.'' then normpath_loop comps initial_slashes new_comps
      else if cmp \<noteq> ''..'' \<or> (initial_slashes = 0 \<and> new_comps = [])
              \<or> (new_comps \<noteq> [] \<and> last new_comps = ''..'')
      then normpath_loop comps initial_slashes (new_comps @ [cmp])
      else if new_comps \<noteq> [] then normpath_loop comps initial_slashes (butlast new_comps)
      else normpath_loop comps initial_slashes new_comps)"

definition normpath :: "string \<Rightarrow> string" where
  "normpath path =
     (if path = [] then ''.''
      else
        (let initial_slashes =
               (if startswith path ''/'' then
                  (if startswith path ''//'' \<and> \<not> startswith path ''///'' then 2 else 1)
                else 0);
             comps = normpath_loop (split_sep path) initial_slashes [];
             p = replicate initial_slashes (CHR ''/'') @ join_sep comps
         in if p = [] then ''.'' else p))"

text \<open>\<open>os.path.abspath(path)\<close>, with the current directory \<open>cwd\<close>.\<close>

definition abspath :: "string \<Rightarrow> string \<Rightarrow> string" where
  "abspath cwd path = normpath (if startswith path ''/'' then path else path_join cwd path)"

datatype node_kind = Regular_file | Directory | Special_file

record node =
  n_kind :: node_kind
  n_mtime :: real
  n_size :: nat
  n_content :: bytes

record os =
  os_cwd :: string
  os_files :: "string \<rightharpoonup> node"

definition exists_path :: "os \<Rightarrow> string \<Rightarrow> bool" where
  "exists_path env p = (os_files env p \<noteq> None)"

definition isfile :: "os \<Rightarrow> string \<Rightarrow> bool" where
  "isfile env p = (case os_files env p of None \<Rightarrow> False | Some n \<Rightarrow> n_kind n = Regular_file)"

subsection \<open>StaticRoute\<close>

text \<open>
  A request, as \<open>handle\<close> reads it: \<open>match_info\<close> (a dict) and \<open>if_modified_since\<close>
  (\<open>None\<close>, or the timestamp of the date). The response is \<open>StreamResponse\<close>, which is not
  among the sources: the record keeps what \<open>handle\<close> sets on it and the body bytes that
  are written to it.
\<close>

record request =
  rq_match_info :: "(string \<times> string) list"
  rq_if_modified_since :: "real option"

record response =
  rs_content_type :: string
  rs_content_encoding :: "string option"
  rs_last_modified :: "real option"
  rs_content_length :: "nat option"
  rs_tcp_cork :: bool
  rs_tcp_nodelay :: bool
  rs_prepared :: bool
  rs_body :: "bytes list"

definition StreamResponse :: response where
  "StreamResponse =
     \<lparr>rs_content_type = ''application/octet-stream'', rs_content_encoding = None,
      rs_last_modified = None, rs_content_length = None, rs_tcp_cork = False,
      rs_tcp_nodelay = False, rs_prepared = False, rs_body = []\<rparr>"

record StaticRoute =
  sr_prefix :: string
  sr_prefix_len :: nat
  sr_directory :: string
  sr_chunk_size :: nat

text \<open>
  \<open>StaticRoute.__init__\<close>: the two \<open>assert\<close>s on the prefix, and \<open>ValueError\<close> when the
  directory does not exist.
\<close>

datatype static_error = Assertion_failed | No_directory string

definition StaticRoute_init :: "os \<Rightarrow> string \<Rightarrow> string \<Rightarrow> nat \<Rightarrow> static_error + StaticRoute" where
  "StaticRoute_init env pre directory chunk_size =
     (if \<not> startswith pre ''/'' then Inl Assertion_failed
      else if \<not> endswith pre ''/'' then Inl Assertion_failed
      else
        (let dir = abspath (os_cwd env) directory @ ''/''
         in if (case os_files env (abspath (os_cwd env) dir) of
                  None \<Rightarrow> False
                | Some n \<Rightarrow> n_kind n = Directory)
            then Inr \<lparr>sr_prefix = pre, sr_prefix_len = length pre, sr_directory = dir,
                      sr_chunk_size = chunk_size\<rparr>
            else Inl (No_directory dir)))"

definition static_match :: "StaticRoute \<Rightarrow> string \<Rightarrow> (string \<times> string) list option" where
  "static_match r path =
     (if \<not> startswith path (sr_prefix r) then None
      else Some [(''filename'', drop (sr_prefix_len r) path)])"

text \<open>
  \<open>_sendfile_fallback\<close>: the list of the chunks passed to \<open>resp.write\<close>. \<open>fobj\<close> is the
  part of the file not read yet, and \<open>fobj.read(chunk_size)\<close> takes its first
  \<open>chunk_size\<close> bytes.
\<close>

function sendfile_fallback :: "nat \<Rightarrow> bytes \<Rightarrow> nat \<Rightarrow> bytes list" where
  "sendfile_fallback chunk_size fobj count =
     (let chunk = take chunk_size fobj
      in if chunk \<noteq> [] \<and> count > chunk_size then
           chunk # sendfile_fallback chunk_size (drop chunk_size fobj) (count - chunk_size)
         else if chunk \<noteq> [] then [take count chunk]
         else [])"
  by pat_completeness auto
termination
  by (relation "measure (\<lambda>(chunk_size, fobj, count). length fobj)") auto

declare sendfile_fallback.simps [simp del]

text \<open>
  \<open>handle\<close>. \<open>mimetypes.guess_type\<close> is a library table and a parameter. \<open>self._sendfile\<close>
  is \<open>_sendfile_system\<close> or \<open>_sendfile_fallback\<close>; the former rests on \<open>os.sendfile\<close> and
  the event loop, so the transfer is the parameter \<open>sendfile\<close>: from the content of the
  opened file and the count to an exception or the chunks that reach the client.
  \<open>sendfile_fallback (sr_chunk_size r)\<close> is the one defined in the source. The
  \<open>finally\<close> clause sets \<open>tcp_nodelay\<close> on the response whether or not the transfer
  raised; a raised exception leaves no response to the caller.
\<close>

definition handle ::
  "os \<Rightarrow> (string \<Rightarrow> string option \<times> string option) \<Rightarrow> (bytes \<Rightarrow> nat \<Rightarrow> error + bytes list) \<Rightarrow>
   StaticRoute \<Rightarrow> request \<Rightarrow> error + response" where
  "handle env guess_type sendfile r req =
     (case map_of (rq_match_info req) ''filename'' of
        None \<Rightarrow> Inl KeyError
      | Some filename \<Rightarrow>
          (let filepath = abspath (os_cwd env) (path_join (sr_directory r) filename)
           in if \<not> startswith filepath (sr_directory r) then Inl HTTPNotFound
              else if \<not> exists_path env filepath \<or> \<not> isfile env filepath then Inl HTTPNotFound
              else
                (case os_files env filepath of
                   None \<Rightarrow> Inl HTTPNotFound
                 | Some st \<Rightarrow>
                     (if (case rq_if_modified_since req of
                            None \<Rightarrow> False
                          | Some modsince \<Rightarrow> n_mtime st \<le> modsince)
                      then Inl HTTPNotModified
                      else
                        (let (ct, encoding) = guess_type filepath;
                             ct' = (case ct of None \<Rightarrow> ''application/octet-stream''
                                    | Some t \<Rightarrow> if t = [] then ''application/octet-stream'' else t);
                             resp = StreamResponse\<lparr>rs_content_type := ct'\<rparr>;
                             resp = (case encoding of
                                       None \<Rightarrow> resp
                                     | Some enc \<Rightarrow>
                                         if enc = [] then resp
                                         else resp\<lparr>rs_content_encoding := Some enc\<rparr>);
                             resp = resp\<lparr>rs_last_modified := Some (n_mtime st)\<rparr>;
                             file_size = n_size st;
                             resp = resp\<lparr>rs_content_length := Some file_size\<rparr>;
                             resp = resp\<lparr>rs_tcp_cork := True\<rparr>;
                             resp = resp\<lparr>rs_prepared := True\<rparr>
                         in case sendfile (n_content st) file_size of
                              Inl e \<Rightarrow> Inl e
                            | Inr chunks \<Rightarrow>
                                Inr (resp\<lparr>rs_body := chunks, rs_tcp_nodelay := True\<rparr>))))))"

subsection \<open>A concrete file system for the examples\<close>

text \<open>
  The static root \<open>/srv/static\<close> with one file and one directory below it, and a file
  outside it; the route serves it under \<open>/static/\<close>.
\<close>

definition example_node :: "node_kind \<Rightarrow> real \<Rightarrow> bytes \<Rightarrow> node" where
  "example_node k t data = \<lparr>n_kind = k, n_mtime = t, n_size = length data, n_content = data\<rparr>"

definition example_os :: os where
  "example_os =
     \<lparr>os_cwd = ''/'',
      os_files = map_of
        [(''/srv/static'', example_node Directory 50 []),
         (''/srv/static/index.html'', example_node Regular_file 100 ''<html></html>''),
         (''/srv/static/sub'', example_node Directory 60 []),
         (''/etc/passwd'', example_node Regular_file 10 ''root:x:0:0'')]\<rparr>"

definition example_route :: StaticRoute where
  "example_route =
     \<lparr>sr_prefix = ''/static/'', sr_prefix_len = 8, sr_directory = ''/srv/static/'',
      sr_chunk_size = 4\<rparr>"

definition example_guess_type :: "string \<Rightarrow> string option \<times> string option" where
  "example_guess_type p = (if endswith p ''.html'' then (Some ''text/html'', None) else (None, None))"

section \<open>Properties of the multi-valued map\<close>

lemma delitem_loop_filter:
  "i \<le> length xs \<Longrightarrow>
   delitem_loop xs key i found =
     Inr (filter (\<lambda>p. fst p \<noteq> key) (take i xs) @ drop i xs,
          found \<or> key \<in> fst ` set (take i xs))"
proof (induction i arbitrary: xs found)
  case 0
  then show ?case by simp
next
  case (Suc i)
  then have lt: "i < length xs" by simp
  have split: "take (Suc i) xs = take i xs @ [xs ! i]"
    using lt by (simp add: take_Suc_conv_app_nth)
  show ?case
  proof (cases "fst (xs ! i) = key")
    case True
    let ?ys = "take i xs @ drop (Suc i) xs"
    have len: "i \<le> length ?ys" using lt by simp
    have t: "take i ?ys = take i xs" using lt by simp
    have d: "drop i ?ys = drop (Suc i) xs" using lt by simp
    have "delitem_loop xs key (Suc i) found = delitem_loop ?ys key i True"
      using lt True by (simp add: del_at_def)
    also have "\<dots> = Inr (filter (\<lambda>p. fst p \<noteq> key) (take i xs) @ drop (Suc i) xs, True)"
      using Suc.IH [OF len, of True] by (simp only: t d) simp
    finally show ?thesis using True by (simp add: split)
  next
    case False
    have le: "i \<le> length xs" using lt by simp
    have "delitem_loop xs key (Suc i) found = delitem_loop xs key i found"
      using lt False by simp
    also have "\<dots> = Inr (filter (\<lambda>p. fst p \<noteq> key) (take i xs) @ drop i xs,
                         found \<or> key \<in> fst ` set (take i xs))"
      by (rule Suc.IH [OF le])
    finally show ?thesis
      using False lt by (auto simp: split Cons_nth_drop_Suc)
  qed
qed

lemma delitem_items:
  "m_items (snd (delitem m key)) = filter (\<lambda>p. fst p \<noteq> key) (m_items m)"
  by (simp add: delitem_def delitem_loop_filter)

lemma delitem_result:
  "fst (delitem m key) = (if key \<in> fst ` set (m_items m) then Inr () else Inl KeyError)"
  by (simp add: delitem_def delitem_loop_filter)

lemma setitem_items:
  "setitem m key val =
     (Inr (), m\<lparr>m_items := filter (\<lambda>p. fst p \<noteq> key) (m_items m) @ [(key, val)]\<rparr>)"
proof -
  obtain r m' where d: "delitem m key = (r, m')" by (cases "delitem m key")
  have i: "m_items m' = filter (\<lambda>p. fst p \<noteq> key) (m_items m)"
    using delitem_items [of m key] d by simp
  have m': "m' = m\<lparr>m_items := m_items m'\<rparr>"
    using d by (auto simp: delitem_def delitem_loop_filter split: if_splits)
  have r: "r = Inr () \<or> r = Inl KeyError"
    using delitem_result [of m key] d by (auto split: if_splits)
  have "setitem m key val = (Inr (), m'\<lparr>m_items := m_items m' @ [(key, val)]\<rparr>)"
    using r d by (auto simp: setitem_def)
  also have "\<dots> = (Inr (), m\<lparr>m_items := filter (\<lambda>p. fst p \<noteq> key) (m_items m) @ [(key, val)]\<rparr>)"
    by (subst m') (simp add: i)
  finally show ?thesis .
qed

lemma getall_filter_append:
  "map snd (filter (\<lambda>(k, v). k = key) (filter (\<lambda>p. fst p \<noteq> key) xs @ [(key, val)])) = [val]"
  by (induction xs) auto

lemma getall_after_setitem:
  "getall (m\<lparr>m_items := filter (\<lambda>p. fst p \<noteq> key) xs @ [(key, val)]\<rparr>) key None = Inr [val]"
  unfolding getall_def Let_def using getall_filter_append [of key xs val] by simp

text \<open>
  C10. For every map \<open>m\<close>, key \<open>k\<close> and value \<open>v\<close>, \<open>m[k] = v\<close> succeeds whether or
  not \<open>k\<close> was present (the \<open>KeyError\<close> of the deletion is caught); afterwards
  \<open>getall(k)\<close> is exactly \<open>[v]\<close>, the new pair is the last pair of the sequence, and
  the pairs whose key is not \<open>k\<close> are the same as before, in the same order.
\<close>

theorem setitem_replaces:
  "fst (setitem m k v) = Inr ()
   \<and> getall (snd (setitem m k v)) k None = Inr [v]
   \<and> m_items (snd (setitem m k v)) = filter (\<lambda>p. fst p \<noteq> k) (m_items m) @ [(k, v)]
   \<and> last (m_items (snd (setitem m k v))) = (k, v)
   \<and> filter (\<lambda>p. fst p \<noteq> k) (m_items (snd (setitem m k v)))
       = filter (\<lambda>p. fst p \<noteq> k) (m_items m)"
  by (simp add: setitem_items getall_after_setitem)

lemma extend_items: "m_items (extend_md m ps) = m_items m @ ps"
  unfolding extend_md_def by (induction ps arbitrary: m) (auto simp: add_def)

lemma first_pair_map_of:
  "key \<in> fst ` set ps \<Longrightarrow> first_pair ps key = [(key, the (map_of ps key))]"
  by (induction ps) force+

lemma unique_pairs:
  "set order \<subseteq> fst ` set ps \<Longrightarrow>
   concat (map (first_pair ps) order) = map (\<lambda>k. (k, the (map_of ps k))) order"
  by (induction order) (auto simp: first_pair_map_of)

lemma map_of_the: "k \<in> fst ` set ps \<Longrightarrow> map_of ps k = Some (the (map_of ps k))"
  by (induction ps) auto

lemma ItemsView_unique:
  assumes "set_iteration (map fst ps) order"
  shows "ItemsView_init ps False order = Inr (map (\<lambda>k. (k, the (map_of ps k))) order)"
proof -
  have "set order \<subseteq> fst ` set ps"
    using assms by (simp add: set_iteration_def)
  then show ?thesis
    by (simp add: ItemsView_init_def unique_pairs)
qed

text \<open>
  C9. Let the pairs \<open>ps\<close> be inserted into a map, by the constructor or one by one
  with \<open>add\<close> (\<open>extend\<close>, here \<open>extend_md\<close>). Then \<open>items(getall=True)\<close> is exactly \<open>ps\<close>, in
  insertion order and with its duplicates; and \<open>items()\<close> has exactly one pair for
  each distinct key (its keys are the enumeration of the key set, which has no
  repetition and holds every key of \<open>ps\<close>), and each of its pairs \<open>(k, v)\<close> is the
  first pair of \<open>ps\<close> with key \<open>k\<close> (\<open>map_of\<close> looks up the first binding).
\<close>

theorem items_view_insertion_order:
  assumes "m = MultiDict_init ps \<or> m = extend_md (MultiDict_init []) ps"
    and "set_iteration (map fst ps) order"
  shows "items m True order = Inr ps
    \<and> (\<exists>res. items m False order = Inr res
          \<and> map fst res = order \<and> distinct (map fst res)
          \<and> set (map fst res) = fst ` set ps
          \<and> (\<forall>(k, v) \<in> set res. map_of ps k = Some v))"
proof -
  have m: "m_items m = ps"
    using assms(1) by (auto simp: MultiDict_init_def fill_def extend_items)
  have all: "items m True order = Inr ps"
    by (simp add: items_def ItemsView_init_def m)
  let ?res = "map (\<lambda>k. (k, the (map_of ps k))) order"
  have uniq: "items m False order = Inr ?res"
    using ItemsView_unique [OF assms(2)] by (simp add: items_def m)
  have keys: "map fst ?res = order"
    by (simp add: comp_def)
  have props: "distinct order" "set order = fst ` set ps"
    using assms(2) by (simp_all add: set_iteration_def)
  have first: "\<forall>(k, v) \<in> set ?res. map_of ps k = Some v"
  proof (clarify)
    fix k v assume "(k, v) \<in> set ?res"
    then have "k \<in> set order" "v = the (map_of ps k)" by auto
    then show "map_of ps k = Some v"
      using props(2) map_of_the [of k ps] by simp
  qed
  show ?thesis
    using all uniq keys props first by (metis (no_types, lifting))
qed

theorem items_view_insertion_order_witness:
  "set_iteration (map fst [(''a'', 1::nat), (''b'', 2), (''a'', 3)]) [''b'', ''a'']
   \<and> items (MultiDict_init [(''a'', 1::nat), (''b'', 2), (''a'', 3)]) True [''b'', ''a'']
       = Inr [(''a'', 1), (''b'', 2), (''a'', 3)]
   \<and> items (MultiDict_init [(''a'', 1::nat), (''b'', 2), (''a'', 3)]) False [''b'', ''a'']
       = Inr [(''b'', 2), (''a'', 1)]"
proof -
  have h: "set_iteration (map fst [(''a'', 1::nat), (''b'', 2), (''a'', 3)]) [''b'', ''a'']"
    by (auto simp: set_iteration_def)
  have e: "items (MultiDict_init [(''a'', 1::nat), (''b'', 2), (''a'', 3)]) False [''b'', ''a'']
       = Inr [(''b'', 2), (''a'', 1)]"
    by (simp add: items_def ItemsView_init_def MultiDict_init_def fill_def)
  show ?thesis
    using h e items_view_insertion_order [OF disjI1 [OF refl] h] by simp
qed

section \<open>Properties of the payload writer\<close>

lemma write_chunk_output:
  "wire (write_chunk w c) @ queued (write_chunk w c) = wire w @ queued w @ c"
  by (simp add: write_chunk_def wire_def queued_def Let_def split: option.splits)

lemma write_chunk_attached:
  "w_transport w \<noteq> None \<Longrightarrow>
   wire (write_chunk w c) = wire w @ queued w @ c \<and> queued (write_chunk w c) = []"
  by (auto simp: write_chunk_def wire_def queued_def Let_def split: option.splits)

lemma write_chunk_detached:
  "w_transport w = None \<Longrightarrow>
   wire (write_chunk w c) = wire w \<and> queued (write_chunk w c) = queued w @ c"
  by (simp add: write_chunk_def wire_def queued_def Let_def)

lemma write_compress_none:
  "w_compress w = None \<Longrightarrow> write_compress Z w b = (w, Some b)"
  by (simp add: write_compress_def)

lemma write_clamp_zero:
  assumes "w_length w = Some 0"
  shows "write_clamp w b = (w, if b = [] then Some [] else None)"
proof -
  have same: "w\<lparr>w_length := Some 0\<rparr> = w"
    using assms by simp
  show ?thesis
    using assms by (simp add: write_clamp_def same)
qed

lemma write_payload_zero_budget:
  assumes "w_length w = Some 0" and "w_compress w = None"
  shows "write_payload Z w b d L = (Noop, w)"
  by (simp add: write_payload_def write_compress_none [OF assms(2)] write_clamp_zero [OF assms(1)])

lemma write_clamp_fields:
  assumes "write_clamp w b = (w', r)"
  shows "w_eof w' = w_eof w" "w_transport w' = w_transport w" "w_chunked w' = w_chunked w"
    "w_compress w' = w_compress w" "w_stream w' = w_stream w"
    "w_drain_waiter w' = w_drain_waiter w" "w_buffer w' = w_buffer w" "w_wire w' = w_wire w"
  using assms by (auto simp: write_clamp_def Let_def split: option.splits if_splits)

lemma write_chunk_fields:
  "w_eof (write_chunk w c) = w_eof w" "w_transport (write_chunk w c) = w_transport w"
  "w_chunked (write_chunk w c) = w_chunked w" "w_compress (write_chunk w c) = w_compress w"
  "w_stream (write_chunk w c) = w_stream w" "w_drain_waiter (write_chunk w c) = w_drain_waiter w"
  "w_length (write_chunk w c) = w_length w"
  by (simp_all add: write_chunk_def Let_def split: option.splits)

text \<open>Without compression, \<open>write\<close> is the clamp followed by the framing and \<open>_write\<close>.\<close>

lemma write_payload_no_compress:
  assumes "w_compress w = None" and "write_clamp w b = (w2, r)"
  shows "snd (write_payload Z w b d L) =
     (case r of
        None \<Rightarrow> w2
      | Some c2 \<Rightarrow>
          if c2 = [] then w2
          else (let w3 = write_chunk w2
                       (if w_chunked w then hex (length c2) @ CRLF @ c2 @ CRLF else c2)
                in if w_buffer_size w3 > L \<and> d then w3\<lparr>w_buffer_size := 0\<rparr> else w3))"
  using assms(2) write_clamp_fields(3) [OF assms(2)]
  by (cases r) (simp_all add: write_payload_def write_compress_none [OF assms(1)] Let_def)

lemma write_payload_fields:
  assumes "w_compress w = None"
  shows "w_eof (snd (write_payload Z w b d L)) = w_eof w"
    "w_transport (snd (write_payload Z w b d L)) = w_transport w"
    "w_chunked (snd (write_payload Z w b d L)) = w_chunked w"
    "w_compress (snd (write_payload Z w b d L)) = None"
    "w_stream (snd (write_payload Z w b d L)) = w_stream w"
    "w_drain_waiter (snd (write_payload Z w b d L)) = w_drain_waiter w"
proof -
  obtain w2 r where c: "write_clamp w b = (w2, r)"
    by (cases "write_clamp w b")
  note f = write_clamp_fields [OF c] and p = write_payload_no_compress [OF assms c, of Z d L]
  show "w_eof (snd (write_payload Z w b d L)) = w_eof w"
    by (cases r) (simp_all add: p f write_chunk_fields Let_def)
  show "w_transport (snd (write_payload Z w b d L)) = w_transport w"
    by (cases r) (simp_all add: p f write_chunk_fields Let_def)
  show "w_chunked (snd (write_payload Z w b d L)) = w_chunked w"
    by (cases r) (simp_all add: p f write_chunk_fields Let_def)
  show "w_compress (snd (write_payload Z w b d L)) = None"
    using assms by (cases r) (simp_all add: p f write_chunk_fields Let_def)
  show "w_stream (snd (write_payload Z w b d L)) = w_stream w"
    by (cases r) (simp_all add: p f write_chunk_fields Let_def)
  show "w_drain_waiter (snd (write_payload Z w b d L)) = w_drain_waiter w"
    by (cases r) (simp_all add: p f write_chunk_fields Let_def)
qed

lemma write_clamp_within:
  assumes "w_length w = None \<or> (\<exists>len. w_length w = Some len \<and> length b \<le> len)"
  shows "\<exists>w'. write_clamp w b = (w', Some b)"
  using assms by (cases "w_length w") (auto simp: write_clamp_def)

lemma write_clamp_over:
  assumes "w_length w = Some len" and "len < length b"
  shows "write_clamp w b = (w\<lparr>w_length := Some 0\<rparr>, if len = 0 then None else Some (take len b))"
  using assms by (auto simp: write_clamp_def Let_def)

text \<open>
  What a \<open>write\<close> without compression hands on, given the chunk \<open>c\<close> the clamp lets
  through: \<open>c\<close>, framed when the writer is chunked.
\<close>

lemma write_payload_emits:
  assumes "w_compress w = None" and "write_clamp w b = (w2, Some c)" and "c \<noteq> []"
  shows "wire (snd (write_payload Z w b d L)) @ queued (snd (write_payload Z w b d L))
           = wire w @ queued w @ (if w_chunked w then hex (length c) @ CRLF @ c @ CRLF else c)"
    and "w_transport w \<noteq> None \<Longrightarrow>
         wire (snd (write_payload Z w b d L))
           = wire w @ queued w @ (if w_chunked w then hex (length c) @ CRLF @ c @ CRLF else c)"
    and "w_transport w = None \<Longrightarrow> wire (snd (write_payload Z w b d L)) = wire w"
proof -
  let ?c = "if w_chunked w then hex (length c) @ CRLF @ c @ CRLF else c"
  note f = write_clamp_fields [OF assms(2)]
  have run: "snd (write_payload Z w b d L) = write_chunk w2 ?c
           \<or> snd (write_payload Z w b d L) = (write_chunk w2 ?c)\<lparr>w_buffer_size := 0\<rparr>"
    using write_payload_no_compress [OF assms(1,2), of Z d L] assms(3) by (simp add: Let_def)
  have base: "wire w2 = wire w" "queued w2 = queued w"
    using f by (simp_all add: wire_def queued_def)
  have upd: "wire (x\<lparr>w_buffer_size := 0\<rparr>) = wire x" "queued (x\<lparr>w_buffer_size := 0\<rparr>) = queued x"
    for x :: "'a PayloadWriter"
    by (simp_all add: wire_def queued_def)
  show "wire (snd (write_payload Z w b d L)) @ queued (snd (write_payload Z w b d L))
           = wire w @ queued w @ ?c"
    using run write_chunk_output [of w2 ?c] base by (auto simp: upd)
  show "wire (snd (write_payload Z w b d L)) = wire w @ queued w @ ?c" if "w_transport w \<noteq> None"
    using run write_chunk_attached [of w2 ?c] base that f(2) by (auto simp: upd)
  show "wire (snd (write_payload Z w b d L)) = wire w" if "w_transport w = None"
    using run write_chunk_detached [of w2 ?c] base that f(2) by (auto simp: upd)
qed

lemma write_payload_length_over:
  assumes "w_length w = Some len" and "w_compress w = None" and "len < length b"
  shows "w_length (snd (write_payload Z w b d L)) = Some 0"
proof -
  note c = write_clamp_over [OF assms(1,3)]
  show ?thesis
    using write_payload_no_compress [OF assms(2) c, of Z d L]
    by (simp add: Let_def write_chunk_fields)
qed

lemma write_eof_noop: "w_eof w \<Longrightarrow> write_eof Z w c = Returned w"
  by (simp add: write_eof_def)

lemma write_eof_chunk_fields:
  assumes "write_eof_chunk Z w c = (w1, c1)"
  shows "w_eof w1 = w_eof w" "w_transport w1 = w_transport w" "w_stream w1 = w_stream w"
    "w_buffer w1 = w_buffer w" "w_wire w1 = w_wire w" "w_drain_waiter w1 = w_drain_waiter w"
  using assms
  by (auto simp: write_eof_chunk_def Let_def split: option.splits prod.splits if_splits)

lemma buffer_data_fields:
  "w_eof (buffer_data w c) = w_eof w" "w_transport (buffer_data w c) = w_transport w"
  "w_stream (buffer_data w c) = w_stream w" "w_wire (buffer_data w c) = w_wire w"
  "w_drain_waiter (buffer_data w c) = w_drain_waiter w"
  "w_buffer (buffer_data w c) = (if c \<noteq> [] then w_buffer w @ [c] else w_buffer w)"
  by (simp_all add: buffer_data_def Let_def)

lemma drain_returned:
  assumes "drain w l = Returned w'"
  shows "w_eof w' = w_eof w" "w_stream w' = w_stream w"
  using assms by (auto simp: drain_def Let_def split: option.splits if_splits future.splits)

lemma drain_suspended:
  assumes "drain w l = Suspended w'"
  shows "w_eof w' = w_eof w" "w_stream w' = w_stream w" "w_drain_waiter w' = Some Pending"
    "w_wire w' = w_wire w" "w_buffer w' = w_buffer w"
  using assms by (auto simp: drain_def Let_def split: option.splits if_splits future.splits)

lemma drain_attached:
  assumes "w_transport w = Some tr"
  shows "\<exists>w'. drain w l = Returned w' \<and> wire w' = wire w @ queued w"
  using assms by (auto simp: drain_def Let_def wire_def queued_def)

lemma write_eof_finish_fields:
  "w_eof (write_eof_finish w)" "w_transport (write_eof_finish w) = None"
  "w_stream (write_eof_finish w) = release (w_stream w)"
  "wire (write_eof_finish w) = wire w"
  by (simp_all add: write_eof_finish_def wire_def)

lemma write_eof_returned:
  assumes "\<not> w_eof w" and "write_eof Z w c = Returned w'"
  shows "w_eof w'" "w_transport w' = None" "w_stream w' = release (w_stream w)"
proof -
  obtain w1 c1 where ch: "write_eof_chunk Z w c = (w1, c1)"
    by (cases "write_eof_chunk Z w c")
  let ?w2 = "if c1 \<noteq> [] then buffer_data w1 c1 else w1"
  have s2: "w_stream ?w2 = w_stream w"
    using write_eof_chunk_fields(3) [OF ch] by (simp add: buffer_data_fields)
  obtain w3 where d: "drain ?w2 True = Returned w3" and w': "w' = write_eof_finish w3"
    using assms ch by (auto simp: write_eof_def Let_def split: awaited.splits)
  have "w_stream w3 = w_stream w"
    using drain_returned(2) [OF d] s2 by simp
  then show "w_eof w'" "w_transport w' = None" "w_stream w' = release (w_stream w)"
    by (simp_all add: w' write_eof_finish_fields)
qed

lemma write_eof_suspended:
  assumes "write_eof Z w c = Suspended w1"
  shows "\<not> w_eof w" "w_stream w1 = w_stream w" "w_drain_waiter w1 = Some Pending"
proof -
  show ne: "\<not> w_eof w"
    using assms by (auto simp: write_eof_def)
  obtain v c1 where ch: "write_eof_chunk Z w c = (v, c1)"
    by (cases "write_eof_chunk Z w c")
  let ?w2 = "if c1 \<noteq> [] then buffer_data v c1 else v"
  have s2: "w_stream ?w2 = w_stream w"
    using write_eof_chunk_fields(3) [OF ch] by (simp add: buffer_data_fields)
  have d: "drain ?w2 True = Suspended w1"
    using assms ch ne by (auto simp: write_eof_def Let_def split: awaited.splits)
  show "w_stream w1 = w_stream w" "w_drain_waiter w1 = Some Pending"
    using drain_suspended(2,3) [OF d] s2 by simp_all
qed

lemma set_transport_resolves:
  assumes "w_drain_waiter w = Some Pending"
  shows "snd (set_transport w tr)" "w_stream (fst (set_transport w tr)) = w_stream w"
  using assms by (simp_all add: set_transport_def Let_def)

lemma write_eof_completes:
  assumes "w_transport w \<noteq> None"
  shows "\<exists>w'. write_eof Z w c = Returned w'"
proof (cases "w_eof w")
  case True
  then show ?thesis by (simp add: write_eof_def)
next
  case False
  obtain w1 c1 where ch: "write_eof_chunk Z w c = (w1, c1)"
    by (cases "write_eof_chunk Z w c")
  let ?w2 = "if c1 \<noteq> [] then buffer_data w1 c1 else w1"
  have "w_transport ?w2 \<noteq> None"
    using write_eof_chunk_fields(2) [OF ch] assms by (simp add: buffer_data_fields)
  then obtain w3 where "drain ?w2 True = Returned w3"
    using drain_attached [of ?w2] by auto
  then show ?thesis
    using False ch by (simp add: write_eof_def Let_def)
qed

lemma write_eof_attached:
  assumes "\<not> w_eof w" and "w_transport w \<noteq> None" and "w_compress w = None" and "w_chunked w"
  shows "\<exists>w'. write_eof Z w [] = Returned w' \<and> wire w' = wire w @ queued w @ ''0'' @ CRLF @ CRLF"
  using assms
  by (auto simp: write_eof_def write_eof_chunk_def buffer_data_def drain_def write_eof_finish_def
      wire_def queued_def CRLF_def Let_def split: option.splits)

lemma write_eof_detached:
  assumes "\<not> w_eof w" and "w_transport w = None" and "w_drain_waiter w = None"
    and "w_compress w = None" and "w_chunked w"
  shows "\<exists>w1. write_eof Z w [] = Suspended w1 \<and> wire w1 = wire w
           \<and> (\<forall>tr. snd (set_transport w1 tr)
                 \<and> wire (write_eof_resume (fst (set_transport w1 tr)))
                     = wire w @ queued w @ ''0'' @ CRLF @ CRLF)"
  using assms
  by (auto simp: write_eof_def write_eof_chunk_def buffer_data_def drain_def write_eof_finish_def
      write_eof_resume_def set_transport_def wire_def queued_def CRLF_def Let_def split: option.splits)

lemma init_fields:
  "w_compress (PayloadWriter_init strm acq) = None"
  "w_length (PayloadWriter_init strm acq) = None"
  "w_buffer (PayloadWriter_init strm acq) = []"
  "w_wire (PayloadWriter_init strm acq) = []"
  "\<not> w_eof (PayloadWriter_init strm acq)"
  "\<not> w_chunked (PayloadWriter_init strm acq)"
  "w_drain_waiter (PayloadWriter_init strm acq) = None"
  "s_available strm \<Longrightarrow> w_transport (PayloadWriter_init strm acq) = s_transport strm"
  "\<not> s_available strm \<Longrightarrow> w_transport (PayloadWriter_init strm acq) = None"
  by (simp_all add: PayloadWriter_init_def Let_def)

lemma hi_then_eof:
  assumes "s_available strm" and "s_transport strm = Some tr"
  shows "\<exists>w'. write_eof Z (snd (write_payload Z (enable_chunking (PayloadWriter_init strm acq))
                   ''hi'' d L)) [] = Returned w'
           \<and> wire w' = ''2'' @ CRLF @ ''hi'' @ CRLF @ ''0'' @ CRLF @ CRLF"
proof -
  let ?w0 = "enable_chunking (PayloadWriter_init strm acq) :: 'a PayloadWriter"
  let ?w1 = "snd (write_payload Z ?w0 ''hi'' d L)"
  have w0: "w_chunked ?w0" "w_compress ?w0 = None" "w_length ?w0 = None"
    "w_transport ?w0 \<noteq> None" "wire ?w0 = []" "queued ?w0 = []" "\<not> w_eof ?w0"
    using assms by (simp_all add: enable_chunking_def init_fields wire_def queued_def)
  have len: "hex (length ''hi'') = ''2''"
    by (simp add: hex.simps hex_digit_def)
  obtain w2 where c: "write_clamp ?w0 ''hi'' = (w2, Some ''hi'')"
    using write_clamp_within [of ?w0 "''hi''"] w0(3) by blast
  have wire1: "wire ?w1 = ''2'' @ CRLF @ ''hi'' @ CRLF"
    using write_payload_emits(2) [OF w0(2) c, of Z d L] w0 len by simp
  have both1: "wire ?w1 @ queued ?w1 = ''2'' @ CRLF @ ''hi'' @ CRLF"
    using write_payload_emits(1) [OF w0(2) c, of Z d L] w0 len by simp
  have q1: "queued ?w1 = []"
    using wire1 both1 by simp
  have f1: "\<not> w_eof ?w1" "w_transport ?w1 \<noteq> None" "w_compress ?w1 = None" "w_chunked ?w1"
    using w0 by (simp_all add: write_payload_fields)
  show ?thesis
    using write_eof_attached [OF f1, of Z] wire1 q1 by simp
qed

text \<open>
  C2, as amended. For a writer with chunking enabled and no compression, and a non-empty
  \<open>b\<close> that the remaining-length budget, if one is set, covers: \<open>write(b)\<close> hands on
  exactly the hexadecimal length of \<open>b\<close>, CRLF, \<open>b\<close>, CRLF, after everything written
  before; with a transport attached all of it is on the wire when \<open>write\<close> returns.
  \<open>write_eof()\<close> emits the terminator \<open>0\<close> CRLF CRLF after everything written before:
  at once when a transport is attached, and otherwise when the transport is attached
  and the suspended call is resumed. On a fresh writer of an available stream, chunking
  enabled, \<open>write(b'hi')\<close> and \<open>write_eof()\<close> put exactly
  \<open>32 0d 0a 68 69 0d 0a 30 0d 0a 0d 0a\<close> on the wire.
\<close>

theorem chunked_write_framing:
  assumes "w_chunked w" and "w_compress w = None" and "b \<noteq> []"
    and "w_length w = None \<or> (\<exists>len. w_length w = Some len \<and> length b \<le> len)"
  shows "wire (snd (write_payload Z w b d L)) @ queued (snd (write_payload Z w b d L))
           = wire w @ queued w @ hex (length b) @ CRLF @ b @ CRLF
    \<and> (w_transport w \<noteq> None \<longrightarrow>
         wire (snd (write_payload Z w b d L)) = wire w @ queued w @ hex (length b) @ CRLF @ b @ CRLF)
    \<and> (\<not> w_eof w \<and> w_transport w \<noteq> None \<longrightarrow>
         (\<exists>w'. write_eof Z w [] = Returned w' \<and> wire w' = wire w @ queued w @ ''0'' @ CRLF @ CRLF))
    \<and> (\<not> w_eof w \<and> w_transport w = None \<and> w_drain_waiter w = None \<longrightarrow>
         (\<exists>w1. write_eof Z w [] = Suspended w1 \<and> wire w1 = wire w
            \<and> (\<forall>tr. snd (set_transport w1 tr)
                  \<and> wire (write_eof_resume (fst (set_transport w1 tr)))
                      = wire w @ queued w @ ''0'' @ CRLF @ CRLF)))
    \<and> (\<forall>strm tr acq. s_available strm \<and> s_transport strm = Some tr \<longrightarrow>
         (\<exists>w'. write_eof Z (snd (write_payload Z (enable_chunking (PayloadWriter_init strm acq))
                   ''hi'' d L)) [] = Returned w'
            \<and> wire w' = [CHR 0x32, CHR 0x0D, CHR 0x0A, CHR 0x68, CHR 0x69, CHR 0x0D, CHR 0x0A,
                         CHR 0x30, CHR 0x0D, CHR 0x0A, CHR 0x0D, CHR 0x0A]))"
proof -
  obtain w2 where c: "write_clamp w b = (w2, Some b)"
    using write_clamp_within [OF assms(4)] by blast
  have p1: "wire (snd (write_payload Z w b d L)) @ queued (snd (write_payload Z w b d L))
           = wire w @ queued w @ hex (length b) @ CRLF @ b @ CRLF"
    using write_payload_emits(1) [OF assms(2) c assms(3), of Z d L] assms(1) by simp
  have p2: "w_transport w \<noteq> None \<longrightarrow>
         wire (snd (write_payload Z w b d L)) = wire w @ queued w @ hex (length b) @ CRLF @ b @ CRLF"
    using write_payload_emits(2) [OF assms(2) c assms(3), of Z d L] assms(1) by simp
  have p3: "\<not> w_eof w \<and> w_transport w \<noteq> None \<longrightarrow>
         (\<exists>w'. write_eof Z w [] = Returned w' \<and> wire w' = wire w @ queued w @ ''0'' @ CRLF @ CRLF)"
    using write_eof_attached [of w Z] assms(1,2) by blast
  have p4: "\<not> w_eof w \<and> w_transport w = None \<and> w_drain_waiter w = None \<longrightarrow>
         (\<exists>w1. write_eof Z w [] = Suspended w1 \<and> wire w1 = wire w
            \<and> (\<forall>tr. snd (set_transport w1 tr)
                  \<and> wire (write_eof_resume (fst (set_transport w1 tr)))
                      = wire w @ queued w @ ''0'' @ CRLF @ CRLF))"
    using write_eof_detached [of w Z] assms(1,2) by blast
  have bytes: "''2'' @ CRLF @ ''hi'' @ CRLF @ ''0'' @ CRLF @ CRLF
      = [CHR 0x32, CHR 0x0D, CHR 0x0A, CHR 0x68, CHR 0x69, CHR 0x0D, CHR 0x0A,
         CHR 0x30, CHR 0x0D, CHR 0x0A, CHR 0x0D, CHR 0x0A]"
    by (simp add: CRLF_def)
  have p5: "\<forall>strm tr acq. s_available strm \<and> s_transport strm = Some tr \<longrightarrow>
         (\<exists>w'. write_eof Z (snd (write_payload Z (enable_chunking (PayloadWriter_init strm acq))
                   ''hi'' d L)) [] = Returned w'
            \<and> wire w' = [CHR 0x32, CHR 0x0D, CHR 0x0A, CHR 0x68, CHR 0x69, CHR 0x0D, CHR 0x0A,
                         CHR 0x30, CHR 0x0D, CHR 0x0A, CHR 0x0D, CHR 0x0A])"
    using hi_then_eof [of _ _ Z _ d L] unfolding bytes by blast
  show ?thesis
    using p1 p2 p3 p4 p5 by (intro conjI)
qed

lemma attached_writer:
  "w_transport (PayloadWriter_init attached_stream acq) = Some 0"
  "wire (PayloadWriter_init attached_stream acq) = []"
  "queued (PayloadWriter_init attached_stream acq) = []"
  by (simp_all add: init_fields attached_stream_def wire_def queued_def)

lemma detached_writer:
  "w_transport (PayloadWriter_init detached_stream acq) = None"
  "wire (PayloadWriter_init detached_stream acq) = []"
  "queued (PayloadWriter_init detached_stream acq) = []"
  by (simp_all add: init_fields detached_stream_def wire_def queued_def)

lemma enable_chunking_fields:
  "w_chunked (enable_chunking w)" "w_compress (enable_chunking w) = w_compress w"
  "w_length (enable_chunking w) = w_length w" "w_eof (enable_chunking w) = w_eof w"
  "w_transport (enable_chunking w) = w_transport w"
  "w_drain_waiter (enable_chunking w) = w_drain_waiter w"
  "wire (enable_chunking w) = wire w" "queued (enable_chunking w) = queued w"
  by (simp_all add: enable_chunking_def wire_def queued_def)

theorem chunked_write_framing_witness:
  "w_chunked (enable_chunking (PayloadWriter_init attached_stream True :: unit PayloadWriter))
   \<and> w_compress (enable_chunking (PayloadWriter_init attached_stream True :: unit PayloadWriter)) = None
   \<and> w_length (enable_chunking (PayloadWriter_init attached_stream True :: unit PayloadWriter)) = None
   \<and> wire (snd (write_payload zlib_stored
               (enable_chunking (PayloadWriter_init attached_stream True)) ''hi'' True LIMIT_default))
       = ''2'' @ CRLF @ ''hi'' @ CRLF
   \<and> (\<exists>w'. write_eof zlib_stored
               (enable_chunking (PayloadWriter_init attached_stream True)) [] = Returned w'
          \<and> wire w' = ''0'' @ CRLF @ CRLF)
   \<and> w_transport (enable_chunking (PayloadWriter_init detached_stream True :: unit PayloadWriter)) = None
   \<and> (\<exists>w1. write_eof zlib_stored
               (enable_chunking (PayloadWriter_init detached_stream True)) [] = Suspended w1
          \<and> wire w1 = []
          \<and> wire (write_eof_resume (fst (set_transport w1 0))) = ''0'' @ CRLF @ CRLF)"
proof -
  let ?a = "enable_chunking (PayloadWriter_init attached_stream True :: unit PayloadWriter)"
  let ?d = "enable_chunking (PayloadWriter_init detached_stream True :: unit PayloadWriter)"
  have a: "w_chunked ?a" "w_compress ?a = None" "w_length ?a = None" "\<not> w_eof ?a"
    "w_transport ?a \<noteq> None" "wire ?a = []" "queued ?a = []"
    by (simp_all add: enable_chunking_fields init_fields attached_writer)
  have d: "w_chunked ?d" "w_compress ?d = None" "w_length ?d = None" "\<not> w_eof ?d"
    "w_transport ?d = None" "w_drain_waiter ?d = None" "wire ?d = []" "queued ?d = []"
    by (simp_all add: enable_chunking_fields init_fields detached_writer)
  have len: "hex (length ''hi'') = ''2''"
    by (simp add: hex.simps hex_digit_def)
  have ne: "''hi'' \<noteq> []" by simp
  note ta = chunked_write_framing [OF a(1) a(2) ne disjI1 [OF a(3)], of zlib_stored True LIMIT_default]
  note td = chunked_write_framing [OF d(1) d(2) ne disjI1 [OF d(3)], of zlib_stored True LIMIT_default]
  have r1: "wire (snd (write_payload zlib_stored ?a ''hi'' True LIMIT_default))
       = ''2'' @ CRLF @ ''hi'' @ CRLF"
    using ta a len by simp
  have r2: "\<exists>w'. write_eof zlib_stored ?a [] = Returned w' \<and> wire w' = ''0'' @ CRLF @ CRLF"
    using ta a by simp
  have r3: "\<exists>w1. write_eof zlib_stored ?d [] = Suspended w1 \<and> wire w1 = []
          \<and> wire (write_eof_resume (fst (set_transport w1 0))) = ''0'' @ CRLF @ CRLF"
    using td d by auto
  show ?thesis
    using a(1,2,3) d(5) r1 r2 r3 by (intro conjI)
qed

text \<open>
  C2 as stated fails when a remaining-length budget smaller than the write is set: the
  clamp runs before the framing, so with budget 1 the chunk written for \<open>b'hi'\<close> is
  \<open>1\<close> CRLF \<open>h\<close> CRLF.
\<close>

theorem chunked_write_counterexample:
  "w_chunked ((enable_chunking (PayloadWriter_init attached_stream True :: unit PayloadWriter))
              \<lparr>w_length := Some 1\<rparr>)
   \<and> w_compress ((enable_chunking (PayloadWriter_init attached_stream True :: unit PayloadWriter))
              \<lparr>w_length := Some 1\<rparr>) = None
   \<and> wire (snd (write_payload zlib_stored
              ((enable_chunking (PayloadWriter_init attached_stream True))\<lparr>w_length := Some 1\<rparr>)
              ''hi'' True LIMIT_default))
       = ''1'' @ CRLF @ ''h'' @ CRLF
   \<and> wire (snd (write_payload zlib_stored
              ((enable_chunking (PayloadWriter_init attached_stream True))\<lparr>w_length := Some 1\<rparr>)
              ''hi'' True LIMIT_default))
       \<noteq> ''2'' @ CRLF @ ''hi'' @ CRLF"
proof -
  let ?w = "(enable_chunking (PayloadWriter_init attached_stream True :: unit PayloadWriter))
              \<lparr>w_length := Some 1\<rparr>"
  have f: "w_chunked ?w" "w_compress ?w = None" "w_length ?w = Some 1"
    "w_transport ?w \<noteq> None" "wire ?w = []" "queued ?w = []"
    by (simp_all add: enable_chunking_def PayloadWriter_init_def Let_def attached_stream_def
        wire_def queued_def)
  have c: "write_clamp ?w ''hi'' = (?w\<lparr>w_length := Some 0\<rparr>, Some ''h'')"
    using write_clamp_over [OF f(3), of "''hi''"] by simp
  have len: "hex (length ''h'') = ''1''"
    by (simp add: hex.simps hex_digit_def)
  have r: "wire (snd (write_payload zlib_stored ?w ''hi'' True LIMIT_default))
       = ''1'' @ CRLF @ ''h'' @ CRLF"
    using write_payload_emits(2) [OF f(2) c, of zlib_stored True LIMIT_default] f len by simp
  have "''1'' @ CRLF @ ''h'' @ CRLF \<noteq> ''2'' @ CRLF @ ''hi'' @ CRLF"
    by simp
  then show ?thesis
    using f(1,2) r by simp
qed

text \<open>
  C4, as amended. For a writer with a remaining-length budget \<open>len\<close> and no compression,
  a \<open>write(b)\<close> with more than \<open>len\<close> bytes sets the budget to zero and hands on only
  the first \<open>len\<close> bytes of \<open>b\<close>: as they are when the writer is not chunked, and as
  one chunk (hexadecimal \<open>len\<close>, CRLF, the bytes, CRLF) when it is; nothing at all when
  \<open>len\<close> is zero. Once the budget is zero every further \<open>write\<close> returns \<open>noop()\<close> and
  leaves the writer exactly as it was. On a fresh, unchunked writer of an available
  stream with budget 3, \<open>write(b'hello')\<close> puts exactly \<open>b'hel'\<close> on the wire.
\<close>

theorem length_budget_truncates:
  assumes "w_length w = Some len" and "w_compress w = None" and "len < length b"
  shows "w_length (snd (write_payload Z w b d L)) = Some 0
    \<and> (\<not> w_chunked w \<longrightarrow>
          wire (snd (write_payload Z w b d L)) @ queued (snd (write_payload Z w b d L))
            = wire w @ queued w @ take len b)
    \<and> (\<not> w_chunked w \<and> w_transport w \<noteq> None \<and> 0 < len \<longrightarrow>
          wire (snd (write_payload Z w b d L)) = wire w @ queued w @ take len b)
    \<and> (w_chunked w \<and> 0 < len \<longrightarrow>
          wire (snd (write_payload Z w b d L)) @ queued (snd (write_payload Z w b d L))
            = wire w @ queued w @ hex len @ CRLF @ take len b @ CRLF)
    \<and> (len = 0 \<longrightarrow>
          wire (snd (write_payload Z w b d L)) = wire w
          \<and> queued (snd (write_payload Z w b d L)) = queued w)
    \<and> (\<forall>b' d' L'. write_payload Z (snd (write_payload Z w b d L)) b' d' L'
                      = (Noop, snd (write_payload Z w b d L)))
    \<and> (\<forall>v b' d' L'. w_length v = Some 0 \<and> w_compress v = None \<longrightarrow>
                      write_payload Z v b' d' L' = (Noop, v))
    \<and> (\<forall>strm tr acq. s_available strm \<and> s_transport strm = Some tr \<longrightarrow>
          wire (snd (write_payload Z ((PayloadWriter_init strm acq)\<lparr>w_length := Some 3\<rparr>)
                       ''hello'' d L)) = ''hel'')"
proof -
  let ?w1 = "snd (write_payload Z w b d L)"
  note c = write_clamp_over [OF assms(1,3)]
  have l0: "w_length ?w1 = Some 0"
    by (rule write_payload_length_over [OF assms])
  have c0: "w_compress ?w1 = None"
    by (rule write_payload_fields(4) [OF assms(2)])
  have tk: "length (take len b) = len"
    using assms(3) by simp
  have ne: "take len b \<noteq> []" if "0 < len"
    using that assms(3) by (cases b) auto
  have pos: "write_clamp w b = (w\<lparr>w_length := Some 0\<rparr>, Some (take len b))" if "0 < len"
    using c that by simp
  have p2: "\<not> w_chunked w \<longrightarrow> wire ?w1 @ queued ?w1 = wire w @ queued w @ take len b"
  proof (cases "len = 0")
    case True
    then have "?w1 = w\<lparr>w_length := Some 0\<rparr>"
      using write_payload_no_compress [OF assms(2) c, of Z d L] by simp
    then show ?thesis using True by (simp add: wire_def queued_def)
  next
    case False
    then have "0 < len" by simp
    then show ?thesis
      using write_payload_emits(1) [OF assms(2) pos ne, of Z d L] by simp
  qed
  have p3: "\<not> w_chunked w \<and> w_transport w \<noteq> None \<and> 0 < len \<longrightarrow>
          wire ?w1 = wire w @ queued w @ take len b"
    using write_payload_emits(2) [OF assms(2) pos ne, of Z d L] by simp
  have p4: "w_chunked w \<and> 0 < len \<longrightarrow>
          wire ?w1 @ queued ?w1 = wire w @ queued w @ hex len @ CRLF @ take len b @ CRLF"
    using write_payload_emits(1) [OF assms(2) pos ne, of Z d L] tk by simp
  have p5: "len = 0 \<longrightarrow> wire ?w1 = wire w \<and> queued ?w1 = queued w"
  proof
    assume z: "len = 0"
    then have "?w1 = w\<lparr>w_length := Some 0\<rparr>"
      using write_payload_no_compress [OF assms(2) c, of Z d L] by simp
    then show "wire ?w1 = wire w \<and> queued ?w1 = queued w"
      by (simp add: wire_def queued_def)
  qed
  have p6: "\<forall>b' d' L'. write_payload Z ?w1 b' d' L' = (Noop, ?w1)"
    using write_payload_zero_budget [OF l0 c0] by blast
  have p7: "\<forall>v b' d' L'. w_length v = Some 0 \<and> w_compress v = None \<longrightarrow>
                      write_payload Z v b' d' L' = (Noop, v)"
    using write_payload_zero_budget by blast
  have p8: "\<forall>strm tr acq. s_available strm \<and> s_transport strm = Some tr \<longrightarrow>
          wire (snd (write_payload Z ((PayloadWriter_init strm acq)\<lparr>w_length := Some 3\<rparr>)
                       ''hello'' d L)) = ''hel''"
  proof (intro allI impI)
    fix strm :: stream and tr :: transport and acq :: bool
    assume s: "s_available strm \<and> s_transport strm = Some tr"
    let ?v = "(PayloadWriter_init strm acq :: 'a PayloadWriter)\<lparr>w_length := Some 3\<rparr>"
    have f: "w_length ?v = Some 3" "w_compress ?v = None" "\<not> w_chunked ?v"
      "w_transport ?v \<noteq> None" "wire ?v = []" "queued ?v = []"
      using s by (simp_all add: PayloadWriter_init_def Let_def wire_def queued_def)
    have cl: "write_clamp ?v ''hello'' = (?v\<lparr>w_length := Some 0\<rparr>, Some ''hel'')"
      using write_clamp_over [OF f(1), of "''hello''"] by simp
    show "wire (snd (write_payload Z ?v ''hello'' d L)) = ''hel''"
      using write_payload_emits(2) [OF f(2) cl, of Z d L] f by simp
  qed
  show ?thesis
    using l0 p2 p3 p4 p5 p6 p7 p8 by (intro conjI)
qed

theorem length_budget_truncates_witness:
  "w_length ((PayloadWriter_init attached_stream True :: unit PayloadWriter)\<lparr>w_length := Some 3\<rparr>)
     = Some 3
   \<and> w_compress ((PayloadWriter_init attached_stream True :: unit PayloadWriter)\<lparr>w_length := Some 3\<rparr>)
     = None
   \<and> 3 < length ''hello''
   \<and> w_length (snd (write_payload zlib_stored
        ((PayloadWriter_init attached_stream True)\<lparr>w_length := Some 3\<rparr>) ''hello'' True LIMIT_default))
     = Some 0
   \<and> wire (snd (write_payload zlib_stored
        ((PayloadWriter_init attached_stream True)\<lparr>w_length := Some 3\<rparr>) ''hello'' True LIMIT_default))
     = ''hel''
   \<and> write_payload zlib_stored
        (snd (write_payload zlib_stored
          ((PayloadWriter_init attached_stream True)\<lparr>w_length := Some 3\<rparr>) ''hello'' True LIMIT_default))
        ''more'' True LIMIT_default
     = (Noop, snd (write_payload zlib_stored
          ((PayloadWriter_init attached_stream True)\<lparr>w_length := Some 3\<rparr>) ''hello'' True LIMIT_default))
   \<and> wire (snd (write_payload zlib_stored
        ((enable_chunking (PayloadWriter_init attached_stream True))\<lparr>w_length := Some 3\<rparr>)
        ''hello'' True LIMIT_default))
     = ''3'' @ CRLF @ ''hel'' @ CRLF"
proof -
  let ?v = "(PayloadWriter_init attached_stream True :: unit PayloadWriter)\<lparr>w_length := Some 3\<rparr>"
  let ?c = "(enable_chunking (PayloadWriter_init attached_stream True :: unit PayloadWriter))
              \<lparr>w_length := Some 3\<rparr>"
  have v: "w_length ?v = Some 3" "w_compress ?v = None" "\<not> w_chunked ?v"
    "w_transport ?v \<noteq> None" "wire ?v = []" "queued ?v = []"
    by (simp_all add: PayloadWriter_init_def Let_def attached_stream_def wire_def queued_def)
  have cf: "w_length ?c = Some 3" "w_compress ?c = None" "w_chunked ?c"
    "w_transport ?c \<noteq> None" "wire ?c = []" "queued ?c = []"
    by (simp_all add: enable_chunking_def PayloadWriter_init_def Let_def attached_stream_def
        wire_def queued_def)
  have lt: "3 < length ''hello''" by simp
  have h3: "hex 3 = ''3''" by (simp add: hex.simps hex_digit_def)
  note tv = length_budget_truncates [OF v(1) v(2) lt, of zlib_stored True LIMIT_default]
  note tc = length_budget_truncates [OF cf(1) cf(2) lt, of zlib_stored True LIMIT_default]
  have r1: "w_length (snd (write_payload zlib_stored ?v ''hello'' True LIMIT_default)) = Some 0"
    using tv by blast
  have r2: "wire (snd (write_payload zlib_stored ?v ''hello'' True LIMIT_default)) = ''hel''"
    using tv v by simp
  have r3: "write_payload zlib_stored
        (snd (write_payload zlib_stored ?v ''hello'' True LIMIT_default)) ''more'' True LIMIT_default
     = (Noop, snd (write_payload zlib_stored ?v ''hello'' True LIMIT_default))"
    using tv by blast
  have both: "wire (snd (write_payload zlib_stored ?c ''hello'' True LIMIT_default))
         @ queued (snd (write_payload zlib_stored ?c ''hello'' True LIMIT_default))
     = ''3'' @ CRLF @ ''hel'' @ CRLF"
    using tc cf h3 by simp
  have cl: "write_clamp ?c ''hello'' = (?c\<lparr>w_length := Some 0\<rparr>, Some ''hel'')"
    using write_clamp_over [OF cf(1), of "''hello''"] by simp
  have "wire (snd (write_payload zlib_stored ?c ''hello'' True LIMIT_default))
     = ''3'' @ CRLF @ ''hel'' @ CRLF"
    using write_payload_emits(2) [OF cf(2) cl, of zlib_stored True LIMIT_default] cf h3
    by (simp add: hex.simps hex_digit_def)
  then show ?thesis
    using v(1,2) lt r1 r2 r3 both by (intro conjI)
qed

text \<open>
  C4 as stated fails for a chunked writer: the truncated bytes are framed like any
  other chunk, so with budget 3 the write of \<open>b'hello'\<close> emits \<open>3\<close> CRLF \<open>hel\<close> CRLF
  and not only \<open>b'hel'\<close>.
\<close>

theorem length_budget_counterexample:
  "w_length ((enable_chunking (PayloadWriter_init attached_stream True :: unit PayloadWriter))
              \<lparr>w_length := Some 3\<rparr>) = Some 3
   \<and> w_compress ((enable_chunking (PayloadWriter_init attached_stream True :: unit PayloadWriter))
              \<lparr>w_length := Some 3\<rparr>) = None
   \<and> wire (snd (write_payload zlib_stored
              ((enable_chunking (PayloadWriter_init attached_stream True))\<lparr>w_length := Some 3\<rparr>)
              ''hello'' True LIMIT_default))
       = ''3'' @ CRLF @ ''hel'' @ CRLF
   \<and> wire (snd (write_payload zlib_stored
              ((enable_chunking (PayloadWriter_init attached_stream True))\<lparr>w_length := Some 3\<rparr>)
              ''hello'' True LIMIT_default))
       \<noteq> ''hel''"
proof -
  let ?c = "(enable_chunking (PayloadWriter_init attached_stream True :: unit PayloadWriter))
              \<lparr>w_length := Some 3\<rparr>"
  have cf: "w_length ?c = Some 3" "w_compress ?c = None" "w_chunked ?c"
    "w_transport ?c \<noteq> None" "wire ?c = []" "queued ?c = []"
    by (simp_all add: enable_chunking_def PayloadWriter_init_def Let_def attached_stream_def
        wire_def queued_def)
  have cl: "write_clamp ?c ''hello'' = (?c\<lparr>w_length := Some 0\<rparr>, Some ''hel'')"
    using write_clamp_over [OF cf(1), of "''hello''"] by simp
  have r: "wire (snd (write_payload zlib_stored ?c ''hello'' True LIMIT_default))
     = ''3'' @ CRLF @ ''hel'' @ CRLF"
    using write_payload_emits(2) [OF cf(2) cl, of zlib_stored True LIMIT_default] cf
    by (simp add: hex.simps hex_digit_def)
  have "''3'' @ CRLF @ ''hel'' @ CRLF \<noteq> ''hel''"
    by (simp add: CRLF_def)
  then show ?thesis
    using cf(1,2) r by simp
qed

lemma write_eof_resumed:
  assumes "write_eof Z w c = Suspended w1"
  shows "snd (set_transport w1 tr)"
    and "w_eof (write_eof_resume (fst (set_transport w1 tr)))"
    and "w_transport (write_eof_resume (fst (set_transport w1 tr))) = None"
    and "w_stream (write_eof_resume (fst (set_transport w1 tr))) = release (w_stream w)"
proof -
  note s = write_eof_suspended [OF assms]
  show "snd (set_transport w1 tr)"
    by (rule set_transport_resolves(1) [OF s(3)])
  show "w_eof (write_eof_resume (fst (set_transport w1 tr)))"
    "w_transport (write_eof_resume (fst (set_transport w1 tr))) = None"
    by (simp_all add: write_eof_resume_def write_eof_finish_fields)
  show "w_stream (write_eof_resume (fst (set_transport w1 tr))) = release (w_stream w)"
    using set_transport_resolves(2) [OF s(3), of tr] s(2)
    by (simp add: write_eof_resume_def write_eof_finish_fields)
qed

text \<open>
  C6. A \<open>write_eof\<close> on a writer that is already finalized returns at once and leaves
  the writer exactly as it was: nothing is buffered or written and no field changes. A
  \<open>write_eof\<close> that completes, whether it returned directly or was suspended in
  \<open>drain\<close> and resumed by \<open>set_transport\<close>, leaves the writer finalized, with no
  transport, and has called \<open>release\<close> on the stream once; from then on every call is
  such a no-op. With a transport attached the call does complete.
\<close>

theorem write_eof_idempotent:
  "(w_eof w \<longrightarrow> write_eof Z w c = Returned w)
   \<and> (\<not> w_eof w \<and> write_eof Z w c = Returned w' \<longrightarrow>
        w_eof w' \<and> w_transport w' = None \<and> w_stream w' = release (w_stream w)
        \<and> (\<forall>c'. write_eof Z w' c' = Returned w'))
   \<and> (write_eof Z w c = Suspended w1 \<longrightarrow>
        (\<forall>tr. snd (set_transport w1 tr)
           \<and> w_eof (write_eof_resume (fst (set_transport w1 tr)))
           \<and> w_transport (write_eof_resume (fst (set_transport w1 tr))) = None
           \<and> w_stream (write_eof_resume (fst (set_transport w1 tr))) = release (w_stream w)
           \<and> (\<forall>c'. write_eof Z (write_eof_resume (fst (set_transport w1 tr))) c'
                      = Returned (write_eof_resume (fst (set_transport w1 tr))))))
   \<and> (w_transport w \<noteq> None \<longrightarrow> (\<exists>v. write_eof Z w c = Returned v))"
proof -
  have p1: "w_eof w \<longrightarrow> write_eof Z w c = Returned w"
    by (simp add: write_eof_noop)
  have p2: "\<not> w_eof w \<and> write_eof Z w c = Returned w' \<longrightarrow>
        w_eof w' \<and> w_transport w' = None \<and> w_stream w' = release (w_stream w)
        \<and> (\<forall>c'. write_eof Z w' c' = Returned w')"
  proof
    assume a: "\<not> w_eof w \<and> write_eof Z w c = Returned w'"
    then have r: "w_eof w'" "w_transport w' = None" "w_stream w' = release (w_stream w)"
      using write_eof_returned [of w Z c w'] by simp_all
    then show "w_eof w' \<and> w_transport w' = None \<and> w_stream w' = release (w_stream w)
        \<and> (\<forall>c'. write_eof Z w' c' = Returned w')"
      by (simp add: write_eof_noop)
  qed
  have p3: "write_eof Z w c = Suspended w1 \<longrightarrow>
        (\<forall>tr. snd (set_transport w1 tr)
           \<and> w_eof (write_eof_resume (fst (set_transport w1 tr)))
           \<and> w_transport (write_eof_resume (fst (set_transport w1 tr))) = None
           \<and> w_stream (write_eof_resume (fst (set_transport w1 tr))) = release (w_stream w)
           \<and> (\<forall>c'. write_eof Z (write_eof_resume (fst (set_transport w1 tr))) c'
                      = Returned (write_eof_resume (fst (set_transport w1 tr)))))"
  proof (intro impI allI)
    fix tr
    assume a: "write_eof Z w c = Suspended w1"
    note r = write_eof_resumed [OF a, of tr]
    show "snd (set_transport w1 tr)
           \<and> w_eof (write_eof_resume (fst (set_transport w1 tr)))
           \<and> w_transport (write_eof_resume (fst (set_transport w1 tr))) = None
           \<and> w_stream (write_eof_resume (fst (set_transport w1 tr))) = release (w_stream w)
           \<and> (\<forall>c'. write_eof Z (write_eof_resume (fst (set_transport w1 tr))) c'
                      = Returned (write_eof_resume (fst (set_transport w1 tr))))"
      using r by (simp add: write_eof_noop)
  qed
  have p4: "w_transport w \<noteq> None \<longrightarrow> (\<exists>v. write_eof Z w c = Returned v)"
    using write_eof_completes [of w Z c] by blast
  show ?thesis
    using p1 p2 p3 p4 by (intro conjI)
qed

theorem write_eof_idempotent_witness:
  "\<not> w_eof (PayloadWriter_init attached_stream True :: unit PayloadWriter)
   \<and> write_eof zlib_stored (PayloadWriter_init attached_stream True) []
       = Returned (write_eof_finish (PayloadWriter_init attached_stream True))
   \<and> w_eof (write_eof_finish (PayloadWriter_init attached_stream True :: unit PayloadWriter))
   \<and> w_transport (write_eof_finish (PayloadWriter_init attached_stream True :: unit PayloadWriter)) = None
   \<and> s_released (w_stream (write_eof_finish
         (PayloadWriter_init attached_stream True :: unit PayloadWriter))) = 1
   \<and> write_eof zlib_stored (write_eof_finish (PayloadWriter_init attached_stream True)) ''x''
       = Returned (write_eof_finish (PayloadWriter_init attached_stream True))
   \<and> (\<exists>w1. write_eof zlib_stored (PayloadWriter_init detached_stream True) [] = Suspended w1
         \<and> snd (set_transport w1 0)
         \<and> w_eof (write_eof_resume (fst (set_transport w1 0)))
         \<and> s_released (w_stream (write_eof_resume (fst (set_transport w1 0)))) = 1)"
proof -
  let ?a = "PayloadWriter_init attached_stream True :: unit PayloadWriter"
  let ?d = "PayloadWriter_init detached_stream True :: unit PayloadWriter"
  have ne: "\<not> w_eof ?a" by (simp add: init_fields)
  have run: "write_eof zlib_stored ?a [] = Returned (write_eof_finish ?a)"
    by (simp add: write_eof_def write_eof_chunk_def drain_def init_fields attached_writer)
  note t = write_eof_idempotent [of ?a zlib_stored "[]" "write_eof_finish ?a"]
  have r: "w_eof (write_eof_finish ?a)" "w_transport (write_eof_finish ?a) = None"
    "w_stream (write_eof_finish ?a) = release (w_stream ?a)"
    "write_eof zlib_stored (write_eof_finish ?a) ''x'' = Returned (write_eof_finish ?a)"
    using t ne run by blast+
  have rel: "s_released (w_stream (write_eof_finish ?a)) = 1"
    using r(3) by (simp add: release_def PayloadWriter_init_def Let_def attached_stream_def)
  obtain w1 where s: "write_eof zlib_stored ?d [] = Suspended w1"
    by (simp add: write_eof_def write_eof_chunk_def drain_def init_fields detached_writer)
  note u = write_eof_idempotent [of ?d zlib_stored "[]" _ w1]
  have r2: "snd (set_transport w1 0)" "w_eof (write_eof_resume (fst (set_transport w1 0)))"
    "w_stream (write_eof_resume (fst (set_transport w1 0))) = release (w_stream ?d)"
    using u s by blast+
  have rel2: "s_released (w_stream (write_eof_resume (fst (set_transport w1 0)))) = 1"
    using r2(3)
    by (simp add: release_def acquire_def PayloadWriter_init_def Let_def detached_stream_def)
  show ?thesis
    using ne run r(1,2,4) rel s r2(1,2) rel2 by blast
qed

section \<open>Properties of the dispatcher\<close>

lemma class_patterns:
  "re_compile (''^'' @ [BACKSLASH] @ ''{(?P<var>[a-zA-Z][_a-zA-Z0-9]*)'' @ [BACKSLASH] @ ''}$'')
     = Inr DYN"
  "re_compile (''^'' @ [BACKSLASH] @ ''{(?P<var>[a-zA-Z][_a-zA-Z0-9]*):(?P<re>.+)''
               @ [BACKSLASH] @ ''}$'') = Inr DYN_WITH_RE"
  "re_compile (''('' @ [BACKSLASH] @ ''{[_a-zA-Z][^{}]*(?:'' @ [BACKSLASH] @ ''{[^{}]*''
               @ [BACKSLASH] @ ''}[^{}]*)*'' @ [BACKSLASH] @ ''})'') = Inr ROUTE_RE"
  "re_compile ''[.:-]'' = Inr NAME_SPLIT_RE"
  by code_simp+

lemma NAME_SPLIT_RE_compiled:
  "NAME_SPLIT_RE =
     \<lparr>p_regex = Class False [CChar (CHR ''.''), CChar (CHR '':''), CChar (CHR ''-'')],
      p_groups = 0, p_groupindex = []\<rparr>"
  by code_simp

lemma split_loop_no_None:
  "p_groups pat = 0 \<Longrightarrow> None \<notin> set (split_loop pat p s piece)"
proof (induction pat p s piece rule: split_loop.induct)
  case (1 pat p piece)
  then show ?case by simp
next
  case (2 pat p x xs piece)
  show ?case
  proof (cases "rmatch (p_regex pat) (p, x # xs, [])")
    case Nil
    then show ?thesis using 2(1) [OF Nil 2(4)] by simp
  next
    case (Cons m ms)
    obtain e rest c where m: "m = (e, rest, c)" by (cases m)
    show ?thesis
    proof (cases "length rest < length (x # xs)")
      case True
      have "None \<notin> set (split_loop pat e rest [])"
        using 2(2) [OF Cons m [symmetric] refl True 2(4)] .
      then show ?thesis
        using Cons m True 2(4) by (auto simp: group_def)
    next
      case False
      have "None \<notin> set (split_loop pat (Suc p) xs (piece @ [x]))"
        using 2(3) [OF Cons m [symmetric] refl False 2(4)] .
      then show ?thesis
        using Cons m False by simp
    qed
  qed
qed

lemma name_parts_no_None: "None \<notin> set (re_split NAME_SPLIT_RE nm)"
  unfolding re_split_def by (rule split_loop_no_None) (simp add: NAME_SPLIT_RE_compiled)

lemma check_parts_bad:
  assumes "None \<notin> set parts" and "Some part \<in> set parts"
    and "\<not> isidentifier part \<or> iskeyword part"
  shows "check_parts parts nm = Inl (ValueError (Incorrect_route_name nm))"
  using assms
proof (induction parts nm rule: check_parts.induct)
  case (1 nm)
  then show ?case by simp
next
  case (2 parts nm)
  then show ?case by simp
next
  case (3 p parts nm)
  then show ?case by (cases "\<not> isidentifier p \<or> iskeyword p") auto
qed

lemma reg_resource_failure_keeps_state:
  "fst (reg_resource d res) = Inl e \<Longrightarrow> snd (reg_resource d res) = d"
  by (auto simp: reg_resource_def split: option.splits sum.splits if_splits)

lemma reg_resource_invalid:
  assumes "resource_name res = Some nm" and "Some part \<in> set (re_split NAME_SPLIT_RE nm)"
    and "\<not> isidentifier part \<or> iskeyword part"
  shows "reg_resource d res = (Inl (ValueError (Incorrect_route_name nm)), d)"
  using check_parts_bad [OF name_parts_no_None assms(2,3), of nm] assms(1)
  by (simp add: reg_resource_def)

lemma reg_resource_duplicate:
  assumes "resource_name res = Some nm" and "check_parts (re_split NAME_SPLIT_RE nm) nm = Inr ()"
    and "nm \<in> dom (d_named_resources d)"
  shows "reg_resource d res = (Inl (ValueError (Duplicate_name nm)), d)"
  using assms by (simp add: reg_resource_def)

lemma reg_resource_success:
  assumes "fst (reg_resource d res) = Inr ()" and "resource_name res = Some nm"
  shows "check_parts (re_split NAME_SPLIT_RE nm) nm = Inr ()"
    and "nm \<in> dom (d_named_resources (snd (reg_resource d res)))"
    and "d_resources (snd (reg_resource d res)) = d_resources d @ [res]"
  using assms by (auto simp: reg_resource_def split: sum.splits if_splits)

text \<open>
  C8. Registering a resource whose name has, among the parts that \<open>.\<close>, \<open>:\<close> and \<open>-\<close>
  separate, one that is not an identifier (or is a keyword) fails with the
  \<open>ValueError\<close> for an incorrect route name; registering a well-formed name that the
  name table already holds fails with the \<open>ValueError\<close> for a duplicate, and so does
  registering any name a second time. Whenever \<open>_reg_resource\<close> fails, the dispatcher,
  its resource list and its name table, is exactly what it was before the call.
\<close>

theorem reg_resource_all_or_nothing:
  "(resource_name res = Some nm \<and> Some part \<in> set (re_split NAME_SPLIT_RE nm)
      \<and> (\<not> isidentifier part \<or> iskeyword part)
      \<longrightarrow> reg_resource d res = (Inl (ValueError (Incorrect_route_name nm)), d))
   \<and> (resource_name res = Some nm \<and> check_parts (re_split NAME_SPLIT_RE nm) nm = Inr ()
      \<and> nm \<in> dom (d_named_resources d)
      \<longrightarrow> reg_resource d res = (Inl (ValueError (Duplicate_name nm)), d))
   \<and> (resource_name res = Some nm \<and> resource_name res' = Some nm
      \<and> fst (reg_resource d res) = Inr ()
      \<longrightarrow> reg_resource (snd (reg_resource d res)) res'
            = (Inl (ValueError (Duplicate_name nm)), snd (reg_resource d res)))
   \<and> (\<forall>e. fst (reg_resource d res) = Inl e \<longrightarrow>
          snd (reg_resource d res) = d
          \<and> d_resources (snd (reg_resource d res)) = d_resources d
          \<and> d_named_resources (snd (reg_resource d res)) = d_named_resources d)"
proof -
  have p3: "resource_name res = Some nm \<and> resource_name res' = Some nm
      \<and> fst (reg_resource d res) = Inr ()
      \<longrightarrow> reg_resource (snd (reg_resource d res)) res'
            = (Inl (ValueError (Duplicate_name nm)), snd (reg_resource d res))"
  proof
    assume a: "resource_name res = Some nm \<and> resource_name res' = Some nm
      \<and> fst (reg_resource d res) = Inr ()"
    then have ok: "check_parts (re_split NAME_SPLIT_RE nm) nm = Inr ()"
      and there: "nm \<in> dom (d_named_resources (snd (reg_resource d res)))"
      using reg_resource_success [of d res nm] by simp_all
    show "reg_resource (snd (reg_resource d res)) res'
            = (Inl (ValueError (Duplicate_name nm)), snd (reg_resource d res))"
      using reg_resource_duplicate [OF _ ok there, of res'] a by simp
  qed
  show ?thesis
    using reg_resource_invalid [of res nm part d] reg_resource_duplicate [of res nm d] p3
      reg_resource_failure_keeps_state [of d res]
    by (intro conjI) auto
qed

lemma bad_name_parts: "re_split NAME_SPLIT_RE ''bad name'' = [Some ''bad name'']"
  by code_simp

lemma bad_name_not_identifier: "\<not> isidentifier ''bad name''"
  by code_simp

lemma main_parts_ok: "check_parts (re_split NAME_SPLIT_RE ''main'') ''main'' = Inr ()"
  by code_simp

theorem reg_resource_all_or_nothing_witness:
  "reg_resource UrlDispatcher_init (PlainResource (Some ''bad name'') ''/'')
     = (Inl (ValueError (Incorrect_route_name ''bad name'')), UrlDispatcher_init)
   \<and> fst (reg_resource UrlDispatcher_init (PlainResource (Some ''main'') ''/'')) = Inr ()
   \<and> reg_resource (snd (reg_resource UrlDispatcher_init (PlainResource (Some ''main'') ''/'')))
        (PlainResource (Some ''main'') ''/other'')
     = (Inl (ValueError (Duplicate_name ''main'')),
        snd (reg_resource UrlDispatcher_init (PlainResource (Some ''main'') ''/'')))
   \<and> d_resources (snd (reg_resource (snd (reg_resource UrlDispatcher_init
                        (PlainResource (Some ''main'') ''/'')))
                      (PlainResource (Some ''main'') ''/other'')))
     = [PlainResource (Some ''main'') ''/'']"
proof -
  let ?bad = "PlainResource (Some ''bad name'') ''/''"
  let ?r1 = "PlainResource (Some ''main'') ''/''"
  let ?r2 = "PlainResource (Some ''main'') ''/other''"
  have part: "Some ''bad name'' \<in> set (re_split NAME_SPLIT_RE ''bad name'')"
    by (simp add: bad_name_parts)
  have w1: "reg_resource UrlDispatcher_init ?bad
     = (Inl (ValueError (Incorrect_route_name ''bad name'')), UrlDispatcher_init)"
    using reg_resource_all_or_nothing [of ?bad "''bad name''" "''bad name''" UrlDispatcher_init]
      part bad_name_not_identifier by simp
  have ok: "fst (reg_resource UrlDispatcher_init ?r1) = Inr ()"
    by (simp add: reg_resource_def main_parts_ok UrlDispatcher_init_def)
  have w2: "reg_resource (snd (reg_resource UrlDispatcher_init ?r1)) ?r2
     = (Inl (ValueError (Duplicate_name ''main'')), snd (reg_resource UrlDispatcher_init ?r1))"
    using reg_resource_all_or_nothing [of ?r1 "''main''" _ UrlDispatcher_init ?r2] ok by simp
  have w3: "d_resources (snd (reg_resource (snd (reg_resource UrlDispatcher_init ?r1)) ?r2))
     = [?r1]"
    using w2 by (simp add: reg_resource_def main_parts_ok UrlDispatcher_init_def)
  show ?thesis
    using w1 ok w2 w3 by (intro conjI)
qed

text \<open>
  What \<open>resolve\<close> can do: it returns only when no resource matches the path, and then
  it returns the not-found result; as soon as a resource matches, it raises.
\<close>

lemma resolve_loop_no_match:
  assumes "\<forall>res \<in> set rs. resource_match res path = Inr None"
  shows "resolve_loop rs path meth allowed
           = (if allowed \<noteq> {} then Inr (MethodNotAllowedMatchInfo meth allowed)
              else Inr NotFoundMatchInfo)"
  using assms by (induction rs) auto

lemma resolve_loop_raises:
  assumes "resource_match res path \<noteq> Inr None" and "res \<in> set rs"
  shows "\<exists>e. resolve_loop rs path meth allowed = Inl e"
  using assms
proof (induction rs)
  case Nil
  then show ?case by simp
next
  case (Cons r rs)
  show ?case
  proof (cases "resource_match r path")
    case (Inl e)
    then show ?thesis by simp
  next
    case (Inr m)
    show ?thesis
    proof (cases m)
      case None
      then have "res \<in> set rs" using Cons.prems Inr by auto
      then show ?thesis using Cons.IH Cons.prems(1) Inr None by simp
    next
      case (Some md)
      then show ?thesis using Inr by (simp add: global_route_def)
    qed
  qed
qed

lemma resolve_never_matches:
  "resolve d path meth = Inr mi \<Longrightarrow> mi = NotFoundMatchInfo"
proof -
  assume r: "resolve d path meth = Inr mi"
  have "\<forall>res \<in> set (d_resources d). resource_match res path = Inr None"
  proof (rule ccontr)
    assume "\<not> (\<forall>res \<in> set (d_resources d). resource_match res path = Inr None)"
    then obtain res where "res \<in> set (d_resources d)" "resource_match res path \<noteq> Inr None"
      by blast
    then show False
      using resolve_loop_raises [of res path "d_resources d" meth "{}"] r
      by (auto simp: resolve_def)
  qed
  then show ?thesis
    using r resolve_loop_no_match [of "d_resources d" path meth "{}"]
    by (simp add: resolve_def)
qed

text \<open>
  C1. The code does not do what the claim says. With the single plain resource \<open>/\<close>
  registered, resolving \<open>GET /\<close> reaches \<open>route.method\<close> with \<open>route\<close> unbound and raises
  \<open>NameError\<close>; resolving \<open>DELETE /\<close> does the same instead of reporting the method as not
  allowed. Only the path that no resource matches gets its result, the not-found one.
\<close>

theorem resolve_raises_NameError:
  "resolve (snd (reg_resource UrlDispatcher_init (PlainResource None ''/''))) ''/'' ''GET''
     = Inl (NameError ''route'')
   \<and> resolve (snd (reg_resource UrlDispatcher_init (PlainResource None ''/''))) ''/'' ''DELETE''
     = Inl (NameError ''route'')
   \<and> resolve (snd (reg_resource UrlDispatcher_init (PlainResource None ''/''))) ''/missing'' ''GET''
     = Inr NotFoundMatchInfo"
  by (simp add: resolve_def reg_resource_def UrlDispatcher_init_def global_route_def)

lemma resource_match_name:
  "resource_match (DynamicResource nm pat formatter) path
     = resource_match (DynamicResource None pat formatter) path"
  by simp

lemma users_id_loop:
  "add_resource_loop (re_split ROUTE_RE ''/users/{id}'') ''/users/{id}'' [] []
     = Inr (re_escape ''/users/'' @ ''(?P<id>'' @ GOOD @ '')'', ''/users/{id}'')"
  by code_simp

lemma users_id_matches:
  "(case re_compile (''^'' @ (re_escape ''/users/'' @ ''(?P<id>'' @ GOOD @ '')'') @ ''$'') of
      Inl e \<Rightarrow> False
    | Inr P \<Rightarrow>
        resource_match (DynamicResource None P ''/users/{id}'') ''/users/42''
          = Inr (Some [(''id'', ''42'')])
        \<and> resource_match (DynamicResource None P ''/users/{id}'') ''/users/42/extra'' = Inr None
        \<and> resource_match (DynamicResource None P ''/users/{id}'') ''/users/'' = Inr None
        \<and> resource_match (DynamicResource None P ''/users/{id}'') ''x/users/42'' = Inr None)"
  by code_simp

lemma users_digits_loop:
  "add_resource_loop (re_split ROUTE_RE (''/users/{id:'' @ [BACKSLASH] @ ''d+}''))
       (''/users/{id:'' @ [BACKSLASH] @ ''d+}'') [] []
     = Inr (re_escape ''/users/'' @ ''(?P<id>'' @ ([BACKSLASH] @ ''d+'') @ '')'', ''/users/{id}'')"
  by code_simp

lemma users_digits_matches:
  "(case re_compile (''^'' @ (re_escape ''/users/'' @ ''(?P<id>'' @ ([BACKSLASH] @ ''d+'') @ '')'')
                     @ ''$'') of
      Inl e \<Rightarrow> False
    | Inr P \<Rightarrow>
        resource_match (DynamicResource None P ''/users/{id}'') ''/users/abc'' = Inr None
        \<and> resource_match (DynamicResource None P ''/users/{id}'') ''/users/42''
            = Inr (Some [(''id'', ''42'')]))"
  by code_simp

text \<open>
  The dynamic branch of \<open>add_resource\<close>, once the loop has built the pattern text and
  \<open>re.compile\<close> has accepted it anchored: the registration raises and the dispatcher is
  as it was.
\<close>

lemma add_resource_dynamic:
  assumes "path = CHR ''/'' # rest" and "CHR ''{'' \<in> set path \<or> CHR ''}'' \<in> set path"
    and "add_resource_loop (re_split ROUTE_RE path) path [] [] = Inr (pat, formatter)"
    and "re_compile (''^'' @ pat @ ''$'') = Inr P"
  shows "add_resource d path nm = (Inl (AttributeError ''register_resource''), d)"
  using assms by (auto simp: add_resource_def UrlDispatcher_register_resource_def)

text \<open>Whatever \<open>add_resource\<close> returns is a plain resource, registered by \<open>_reg_resource\<close>.\<close>

lemma add_resource_returns_plain:
  assumes "add_resource d path nm = (Inr res, d')"
  shows "res = PlainResource nm path \<and> reg_resource d res = (Inr (), d')"
  using assms
  by (auto simp: add_resource_def UrlDispatcher_register_resource_def Let_def
           split: if_splits sum.splits prod.splits re_error.splits)

text \<open>The character set \<open>[^{}/]\<close> of \<open>GOOD\<close>, and how its repetition matches.\<close>

lemma rmatch_good:
  "rmatch (Class True [CChar CHR ''{'', CChar CHR ''}'', CChar CHR ''/'']) (p, s, c)
     = (case s of
          [] \<Rightarrow> []
        | x # xs \<Rightarrow>
            if x \<noteq> CHR ''{'' \<and> x \<noteq> CHR ''}'' \<and> x \<noteq> CHR ''/'' then [(Suc p, xs, c)] else [])"
  by (cases s) (auto simp: rmatch.simps)

lemma rmatch_lit_seq:
  "rmatch (Seq (Lit a) r) (p, s, c)
     = (case s of [] \<Rightarrow> [] | x # xs \<Rightarrow> if x = a then rmatch r (Suc p, xs, c) else [])"
  by (cases s) (auto simp: rmatch.simps)

text \<open>
  The states in which \<open>[^{}/]*\<close> can stop: after every prefix of the longest run of
  characters other than \<open>{\<close>, \<open>}\<close> and \<open>/\<close>, longest first.
\<close>

lemma rmatch_star_good:
  "rmatch (Star (Class True [CChar CHR ''{'', CChar CHR ''}'', CChar CHR ''/''])) (p, s, c)
     = map (\<lambda>k. (p + k, drop k s, c))
         (rev [0..<Suc (length (takeWhile (\<lambda>x. x \<noteq> CHR ''{'' \<and> x \<noteq> CHR ''}'' \<and> x \<noteq> CHR ''/'') s))])"
proof (induction s arbitrary: p)
  case Nil
  show ?case by (simp add: rmatch_good rmatch.simps(9))
next
  case (Cons x xs)
  let ?g = "\<lambda>x. x \<noteq> CHR ''{'' \<and> x \<noteq> CHR ''}'' \<and> x \<noteq> CHR ''/''"
  show ?case
  proof (cases "?g x")
    case False
    then show ?thesis by (auto simp: rmatch_good rmatch.simps(9))
  next
    case True
    let ?n = "length (takeWhile ?g xs)"
    have shift: "[0..<Suc (Suc ?n)] = 0 # map Suc [0..<Suc ?n]"
      by (simp add: upt_conv_Cons map_Suc_upt del: upt_Suc)
    have "rmatch (Star (Class True [CChar CHR ''{'', CChar CHR ''}'', CChar CHR ''/''])) (p, x # xs, c)
        = rmatch (Star (Class True [CChar CHR ''{'', CChar CHR ''}'', CChar CHR ''/''])) (Suc p, xs, c)
          @ [(p, x # xs, c)]"
      using True by (simp add: rmatch_good rmatch.simps(9))
    also have "\<dots> = map (\<lambda>k. (Suc p + k, drop k xs, c)) (rev [0..<Suc ?n]) @ [(p, x # xs, c)]"
      by (simp only: Cons.IH)
    also have "\<dots> = map (\<lambda>k. (p + k, drop k (x # xs), c)) (rev [0..<Suc (Suc ?n)])"
      by (simp only: shift) (simp add: rev_map comp_def del: upt_Suc)
    finally show ?thesis using True by simp
  qed
qed

lemma users_id_pattern:
  "re_compile (''^'' @ (re_escape ''/users/'' @ ''(?P<id>'' @ GOOD @ '')'') @ ''$'')
     = Inr \<lparr>p_regex =
              Seq Bol
               (Seq (Lit CHR ''/'') (Seq (Lit CHR ''u'') (Seq (Lit CHR ''s'') (Seq (Lit CHR ''e'')
                 (Seq (Lit CHR ''r'') (Seq (Lit CHR ''s'') (Seq (Lit CHR ''/'')
                   (Seq (Group 1 (Some ''id'')
                          (Seq (Class True [CChar CHR ''{'', CChar CHR ''}'', CChar CHR ''/''])
                               (Star (Class True [CChar CHR ''{'', CChar CHR ''}'', CChar CHR ''/'']))))
                        Eol)))))))),
            p_groups = 1, p_groupindex = [(''id'', 1)]\<rparr>"
  by code_simp

text \<open>
  The end of the pattern, \<open>(?P<id>[^{}/]+)$\<close>: it matches the whole rest of the
  subject when that is a non-empty run of characters other than \<open>{\<close>, \<open>}\<close> and \<open>/\<close>, and
  the first match found captures all of it; on any other subject it does not match.
\<close>

lemma rmatch_group_seq_eol:
  "rmatch (Seq (Group i nm (Seq a b)) Eol) (p, s, c)
     = concat (map (\<lambda>(p', s', c').
                  if s' = [] \<or> s' = [NEWLINE] then [(p', s', set_cap i (take (p' - p) s) c')] else [])
               (concat (map (rmatch b) (rmatch a (p, s, c)))))"
  by (simp add: rmatch.simps map_concat comp_def case_prod_unfold)

lemma rmatch_segment_all:
  assumes "s \<noteq> []" and "list_all (\<lambda>x. x \<noteq> CHR ''{'' \<and> x \<noteq> CHR ''}'' \<and> x \<noteq> CHR ''/'') s"
  shows "\<exists>others.
     rmatch (Seq (Group i nm
                    (Seq (Class True [CChar CHR ''{'', CChar CHR ''}'', CChar CHR ''/''])
                         (Star (Class True [CChar CHR ''{'', CChar CHR ''}'', CChar CHR ''/'']))))
                 Eol) (p, s, c)
       = (p + length s, [], set_cap i s c) # others"
proof -
  let ?g = "\<lambda>x. x \<noteq> CHR ''{'' \<and> x \<noteq> CHR ''}'' \<and> x \<noteq> CHR ''/''"
  obtain x xs where s: "s = x # xs" using assms(1) by (cases s) auto
  have gx: "?g x" and gxs: "list_all ?g xs" using assms(2) s by simp_all
  have tw: "takeWhile ?g xs = xs"
    using gxs by (simp add: list_all_iff)
  have star: "rmatch (Star (Class True [CChar CHR ''{'', CChar CHR ''}'', CChar CHR ''/''])) (Suc p, xs, c)
       = (Suc p + length xs, [], c)
         # map (\<lambda>k. (Suc p + k, drop k xs, c)) (rev [0..<length xs])"
    by (simp add: rmatch_star_good tw)
  show ?thesis
    using gx by (simp add: s rmatch_group_seq_eol rmatch_good star)
qed

lemma rmatch_segment_none:
  assumes "s = [] \<or> \<not> list_all (\<lambda>x. x \<noteq> CHR ''{'' \<and> x \<noteq> CHR ''}'' \<and> x \<noteq> CHR ''/'') s"
  shows "rmatch (Seq (Group i nm
                    (Seq (Class True [CChar CHR ''{'', CChar CHR ''}'', CChar CHR ''/''])
                         (Star (Class True [CChar CHR ''{'', CChar CHR ''}'', CChar CHR ''/'']))))
                 Eol) (p, s, c) = []"
proof (cases s)
  case Nil
  then show ?thesis by (simp add: rmatch_group_seq_eol rmatch_good)
next
  case (Cons x xs)
  let ?g = "\<lambda>x. x \<noteq> CHR ''{'' \<and> x \<noteq> CHR ''}'' \<and> x \<noteq> CHR ''/''"
  show ?thesis
  proof (cases "?g x")
    case False
    then show ?thesis by (auto simp: Cons rmatch_group_seq_eol rmatch_good)
  next
    case True
    then have "\<not> list_all ?g xs" using assms Cons by simp
    then have dw: "dropWhile ?g xs \<noteq> []"
      by (simp add: list_all_iff)
    then obtain b zs where d: "dropWhile ?g xs = b # zs"
      by (cases "dropWhile ?g xs") auto
    have b: "\<not> ?g b"
      using hd_dropWhile [OF dw] d by simp
    let ?ys = "takeWhile ?g xs"
    have xs: "xs = ?ys @ b # zs"
      using takeWhile_dropWhile_id [of ?g xs] d by simp
    have nl: "b \<noteq> NEWLINE" using b by (auto simp: NEWLINE_def)
    have rest: "drop k xs \<noteq> [] \<and> drop k xs \<noteq> [NEWLINE]" if "k \<le> length ?ys" for k
    proof -
      have "drop k xs = drop k ?ys @ b # zs"
        using that by (subst xs) simp
      then show ?thesis using nl by (cases "drop k ?ys") auto
    qed
    have all: "\<forall>st \<in> set (map (\<lambda>k. (Suc p + k, drop k xs, c)) (rev [0..<Suc (length ?ys)])).
                 (case st of (p', s', c') \<Rightarrow>
                    if s' = [] \<or> s' = [NEWLINE]
                    then [(p', s', set_cap i (take (p' - p) (x # xs)) c')] else []) = []"
      using rest by (auto simp del: upt_Suc)
    have "rmatch (Seq (Class True [CChar CHR ''{'', CChar CHR ''}'', CChar CHR ''/''])
                      (Star (Class True [CChar CHR ''{'', CChar CHR ''}'', CChar CHR ''/''])))
            (p, x # xs, c)
          = map (\<lambda>k. (Suc p + k, drop k xs, c)) (rev [0..<Suc (length ?ys)])"
      using True by (simp add: rmatch.simps(7) rmatch_good rmatch_star_good del: upt_Suc)
    then have inner: "concat (map (rmatch (Star (Class True [CChar CHR ''{'', CChar CHR ''}'', CChar CHR ''/''])))
              (rmatch (Class True [CChar CHR ''{'', CChar CHR ''}'', CChar CHR ''/'']) (p, x # xs, c)))
          = map (\<lambda>k. (Suc p + k, drop k xs, c)) (rev [0..<Suc (length ?ys)])"
      by (simp add: rmatch.simps(7))
    show ?thesis
      unfolding Cons rmatch_group_seq_eol inner using all
      by (simp only: concat_eq_Nil_conv set_map) blast
  qed
qed

lemma rmatch_bol_seq: "rmatch (Seq Bol r) (0, s, c) = rmatch r (0, s, c)"
  by (simp add: rmatch.simps)

lemma users_prefix_match:
  "rmatch (Seq (Lit CHR ''/'') (Seq (Lit CHR ''u'') (Seq (Lit CHR ''s'') (Seq (Lit CHR ''e'')
             (Seq (Lit CHR ''r'') (Seq (Lit CHR ''s'') (Seq (Lit CHR ''/'') r)))))))
          (0, ''/users/'' @ v, c)
     = rmatch r (7, v, c)"
  by (simp add: rmatch_lit_seq eval_nat_numeral)

lemma users_prefix_mismatch:
  assumes "\<not> (\<exists>v. path = ''/users/'' @ v)"
  shows "rmatch (Seq (Lit CHR ''/'') (Seq (Lit CHR ''u'') (Seq (Lit CHR ''s'') (Seq (Lit CHR ''e'')
             (Seq (Lit CHR ''r'') (Seq (Lit CHR ''s'') (Seq (Lit CHR ''/'') r)))))))
          (p, path, c) = []"
  using assms by (auto simp: rmatch_lit_seq split: list.splits)

text \<open>
  The resource compiled from \<open>/users/{id}\<close> matches a path exactly when the path is
  \<open>/users/\<close> followed by one non-empty segment without \<open>{\<close>, \<open>}\<close> and \<open>/\<close>, and then
  \<open>id\<close> is that segment, unquoted.
\<close>

lemma users_id_match_iff:
  assumes "re_compile (''^'' @ (re_escape ''/users/'' @ ''(?P<id>'' @ GOOD @ '')'') @ ''$'') = Inr P"
  shows "resource_match (DynamicResource nm P formatter) path
     = (if \<exists>v. path = ''/users/'' @ v \<and> v \<noteq> []
              \<and> list_all (\<lambda>x. x \<noteq> CHR ''{'' \<and> x \<noteq> CHR ''}'' \<and> x \<noteq> CHR ''/'') v
        then Inr (Some [(''id'', unquote (drop 7 path))])
        else Inr None)"
proof -
  let ?g = "\<lambda>x. x \<noteq> CHR ''{'' \<and> x \<noteq> CHR ''}'' \<and> x \<noteq> CHR ''/''"
  let ?tail = "Seq (Group 1 (Some ''id'')
                      (Seq (Class True [CChar CHR ''{'', CChar CHR ''}'', CChar CHR ''/''])
                           (Star (Class True [CChar CHR ''{'', CChar CHR ''}'', CChar CHR ''/'']))))
                   Eol"
  have P: "P = \<lparr>p_regex =
              Seq Bol
               (Seq (Lit CHR ''/'') (Seq (Lit CHR ''u'') (Seq (Lit CHR ''s'') (Seq (Lit CHR ''e'')
                 (Seq (Lit CHR ''r'') (Seq (Lit CHR ''s'') (Seq (Lit CHR ''/'') ?tail))))))),
            p_groups = 1, p_groupindex = [(''id'', 1)]\<rparr>"
    using assms users_id_pattern by simp
  show ?thesis
  proof (cases "\<exists>v. path = ''/users/'' @ v")
    case False
    then have "re_match P path = None"
      by (simp add: re_match_def P rmatch_bol_seq users_prefix_mismatch)
    then show ?thesis using False by auto
  next
    case True
    then obtain v where v: "path = ''/users/'' @ v" by blast
    have run: "rmatch (p_regex P) (0, path, []) = rmatch ?tail (7, v, [])"
      unfolding P v by (simp only: pattern.simps rmatch_bol_seq users_prefix_match)
    show ?thesis
    proof (cases "v \<noteq> [] \<and> list_all ?g v")
      case False
      then have "rmatch ?tail (7, v, []) = []"
        using rmatch_segment_none [of v 1 "Some ''id''" 7 "[]"] by blast
      then have "re_match P path = None"
        by (simp add: re_match_def run)
      then have rm: "resource_match (DynamicResource nm P formatter) path = Inr None"
        by simp
      have "\<not> (\<exists>w. path = ''/users/'' @ w \<and> w \<noteq> [] \<and> list_all ?g w)"
        using False v by auto
      then show ?thesis
        unfolding rm by (simp only: if_False)
    next
      case good: True
      then obtain others where
        "rmatch ?tail (7, v, []) = (7 + length v, [], set_cap 1 v []) # others"
        using rmatch_segment_all [of v 1 "Some ''id''" 7 "[]"] by blast
      then have m: "re_match P path = Some (7 + length v, set_cap 1 v [])"
        by (simp add: re_match_def run)
      have gd: "groupdict P (set_cap 1 v []) = [(''id'', Some v)]"
        by (simp add: groupdict_def group_def set_cap_def P)
      have rm: "resource_match (DynamicResource nm P formatter) path
                  = Inr (Some [(''id'', unquote v)])"
        using gd by (simp add: m)
      have dr: "drop 7 path = v"
        by (simp add: v)
      have ex: "\<exists>v. path = ''/users/'' @ v \<and> v \<noteq> [] \<and> list_all ?g v"
        using good v by blast
      show ?thesis
        unfolding rm dr using ex by (simp only: if_True)
    qed
  qed
qed

text \<open>
  What the dynamic branch builds before it registers. For the template \<open>/users/{id}\<close>
  the loop gives the pattern text \<open>re.escape('/users/')\<close> followed by
  \<open>(?P<id>[^{}/]+)\<close>, the group of the default character set \<open>GOOD\<close>, compiled between
  \<open>^\<close> and \<open>$\<close>. A dynamic resource of that pattern gives \<open>{id: '42'}\<close> on \<open>/users/42\<close>
  and \<open>None\<close> on \<open>/users/42/extra\<close>; it matches exactly the paths \<open>/users/\<close> plus one
  non-empty segment free of \<open>{\<close>, \<open>}\<close> and \<open>/\<close>. For the template \<open>/users/{id:\d+}\<close> the
  group holds the expression \<open>\d+\<close> as it is, and a resource of that pattern does not
  match \<open>/users/abc\<close> (it matches \<open>/users/42\<close>).
\<close>

lemma users_templates_compile:
  "GOOD = ''[^{}/]+''
   \<and> add_resource_loop (re_split ROUTE_RE ''/users/{id}'') ''/users/{id}'' [] []
       = Inr (re_escape ''/users/'' @ ''(?P<id>'' @ GOOD @ '')'', ''/users/{id}'')
   \<and> (\<exists>P. re_compile (''^'' @ (re_escape ''/users/'' @ ''(?P<id>'' @ GOOD @ '')'') @ ''$'') = Inr P
        \<and> resource_match (DynamicResource nm P ''/users/{id}'') ''/users/42''
            = Inr (Some [(''id'', ''42'')])
        \<and> resource_match (DynamicResource nm P ''/users/{id}'') ''/users/42/extra'' = Inr None
        \<and> (\<forall>path. resource_match (DynamicResource nm P ''/users/{id}'') path
               = (if \<exists>v. path = ''/users/'' @ v \<and> v \<noteq> []
                        \<and> list_all (\<lambda>x. x \<noteq> CHR ''{'' \<and> x \<noteq> CHR ''}'' \<and> x \<noteq> CHR ''/'') v
                  then Inr (Some [(''id'', unquote (drop 7 path))])
                  else Inr None)))
   \<and> add_resource_loop (re_split ROUTE_RE (''/users/{id:'' @ [BACKSLASH] @ ''d+}''))
         (''/users/{id:'' @ [BACKSLASH] @ ''d+}'') [] []
       = Inr (re_escape ''/users/'' @ ''(?P<id>'' @ ([BACKSLASH] @ ''d+'') @ '')'', ''/users/{id}'')
   \<and> (\<exists>Q. re_compile (''^'' @ (re_escape ''/users/'' @ ''(?P<id>'' @ ([BACKSLASH] @ ''d+'') @ '')'')
                        @ ''$'') = Inr Q
        \<and> resource_match (DynamicResource nm Q ''/users/{id}'') ''/users/abc'' = Inr None
        \<and> resource_match (DynamicResource nm Q ''/users/{id}'') ''/users/42''
            = Inr (Some [(''id'', ''42'')]))"
proof -
  have good: "GOOD = ''[^{}/]+''" by (simp add: GOOD_def)
  obtain P where P: "re_compile (''^'' @ (re_escape ''/users/'' @ ''(?P<id>'' @ GOOD @ '')'') @ ''$'')
                       = Inr P"
    using users_id_pattern by blast
  have mP: "resource_match (DynamicResource None P ''/users/{id}'') ''/users/42''
              = Inr (Some [(''id'', ''42'')])"
    "resource_match (DynamicResource None P ''/users/{id}'') ''/users/42/extra'' = Inr None"
    using users_id_matches P by simp_all
  have part1: "\<exists>P. re_compile (''^'' @ (re_escape ''/users/'' @ ''(?P<id>'' @ GOOD @ '')'') @ ''$'') = Inr P
        \<and> resource_match (DynamicResource nm P ''/users/{id}'') ''/users/42''
            = Inr (Some [(''id'', ''42'')])
        \<and> resource_match (DynamicResource nm P ''/users/{id}'') ''/users/42/extra'' = Inr None
        \<and> (\<forall>path. resource_match (DynamicResource nm P ''/users/{id}'') path
               = (if \<exists>v. path = ''/users/'' @ v \<and> v \<noteq> []
                        \<and> list_all (\<lambda>x. x \<noteq> CHR ''{'' \<and> x \<noteq> CHR ''}'' \<and> x \<noteq> CHR ''/'') v
                  then Inr (Some [(''id'', unquote (drop 7 path))])
                  else Inr None))"
    using P mP users_id_match_iff [OF P, of nm "''/users/{id}''"]
    by (intro exI [of _ P] conjI allI) (simp_all only: resource_match_name [of nm])
  obtain Q where Q: "re_compile (''^'' @ (re_escape ''/users/'' @ ''(?P<id>'' @ ([BACKSLASH] @ ''d+'')
                        @ '')'') @ ''$'') = Inr Q"
    using users_digits_matches by (auto split: sum.splits)
  have mQ: "resource_match (DynamicResource None Q ''/users/{id}'') ''/users/abc'' = Inr None"
    "resource_match (DynamicResource None Q ''/users/{id}'') ''/users/42''
       = Inr (Some [(''id'', ''42'')])"
    using users_digits_matches Q by simp_all
  have part2: "\<exists>Q. re_compile (''^'' @ (re_escape ''/users/'' @ ''(?P<id>'' @ ([BACKSLASH] @ ''d+'') @ '')'')
                        @ ''$'') = Inr Q
        \<and> resource_match (DynamicResource nm Q ''/users/{id}'') ''/users/abc'' = Inr None
        \<and> resource_match (DynamicResource nm Q ''/users/{id}'') ''/users/42''
            = Inr (Some [(''id'', ''42'')])"
    using Q mQ
    by (intro exI [of _ Q] conjI) (simp_all only: resource_match_name [of nm])
  show ?thesis
    using good users_id_loop part1 users_digits_loop part2 by (intro conjI)
qed

text \<open>
  C3. The code does not do what the claim says. Registering the template \<open>/users/{id}\<close>
  with \<open>add_resource\<close> builds and compiles the pattern and then calls
  \<open>self.register_resource\<close>, a method \<open>UrlDispatcher\<close> does not have (its registration
  method is \<open>_reg_resource\<close>): the call raises \<open>AttributeError\<close>, no resource is returned
  and the dispatcher is left as it was, whatever the dispatcher and the name are. The
  template \<open>/users/{id:\d+}\<close> fails the same way. On a new dispatcher nothing is
  registered afterwards, so no resource exists whose match could be taken.
\<close>

theorem add_resource_raises_AttributeError:
  "add_resource d ''/users/{id}'' nm = (Inl (AttributeError ''register_resource''), d)
   \<and> add_resource d (''/users/{id:'' @ [BACKSLASH] @ ''d+}'') nm
       = (Inl (AttributeError ''register_resource''), d)
   \<and> d_resources (snd (add_resource UrlDispatcher_init ''/users/{id}'' None)) = []"
proof -
  obtain P where P: "re_compile (''^'' @ (re_escape ''/users/'' @ ''(?P<id>'' @ GOOD @ '')'') @ ''$'')
                       = Inr P"
    using users_id_pattern by blast
  have a: "add_resource d ''/users/{id}'' nm = (Inl (AttributeError ''register_resource''), d)"
    for d nm
    using add_resource_dynamic [OF _ _ users_id_loop P, of "''users/{id}''" d nm] by simp
  obtain Q where Q: "re_compile (''^'' @ (re_escape ''/users/'' @ ''(?P<id>'' @ ([BACKSLASH] @ ''d+'')
                        @ '')'') @ ''$'') = Inr Q"
    using users_digits_matches by (auto split: sum.splits)
  have b: "add_resource d (''/users/{id:'' @ [BACKSLASH] @ ''d+}'') nm
             = (Inl (AttributeError ''register_resource''), d)"
    using add_resource_dynamic [OF _ _ users_digits_loop Q,
        of "''users/{id:'' @ [BACKSLASH] @ ''d+}''" d nm]
    by simp
  have c: "d_resources (snd (add_resource UrlDispatcher_init ''/users/{id}'' None)) = []"
    by (simp add: a UrlDispatcher_init_def)
  show ?thesis
    using a [of d nm] b c by (intro conjI)
qed

section \<open>Properties of the static route\<close>

lemma static_match_filename:
  "static_match r path = Some mi \<Longrightarrow>
   map_of mi ''filename'' = Some (drop (sr_prefix_len r) path)"
  by (auto simp: static_match_def split: if_splits)

lemma handle_not_found:
  assumes "map_of (rq_match_info req) ''filename'' = Some filename"
    and "\<not> startswith (abspath (os_cwd env) (path_join (sr_directory r) filename)) (sr_directory r)
         \<or> \<not> exists_path env (abspath (os_cwd env) (path_join (sr_directory r) filename))
         \<or> \<not> isfile env (abspath (os_cwd env) (path_join (sr_directory r) filename))"
  shows "handle env guess_type sendfile r req = Inl HTTPNotFound"
  using assms by (auto simp: handle_def Let_def)

text \<open>
  C5. Let the request carry the file name of a static-route match. If the file name
  joined to the root and made absolute does not start with the root directory, or
  nothing exists at that path, or what exists is not a regular file, \<open>handle\<close> raises
  \<open>HTTPNotFound\<close>: the same value in the three cases, whatever the rest of the request,
  the content-type table and the transfer strategy are, so that two such requests
  cannot be told apart by the outcome.
\<close>

theorem static_not_found_uniform:
  assumes "static_match r path = Some (rq_match_info req)"
    and "static_match r path' = Some (rq_match_info req')"
    and "filepath = abspath (os_cwd env) (path_join (sr_directory r) (drop (sr_prefix_len r) path))"
    and "filepath' = abspath (os_cwd env) (path_join (sr_directory r) (drop (sr_prefix_len r) path'))"
    and "\<not> startswith filepath (sr_directory r) \<or> \<not> exists_path env filepath
         \<or> \<not> isfile env filepath"
    and "\<not> startswith filepath' (sr_directory r) \<or> \<not> exists_path env filepath'
         \<or> \<not> isfile env filepath'"
  shows "handle env guess_type sendfile r req = Inl HTTPNotFound
    \<and> handle env guess_type' sendfile' r req' = Inl HTTPNotFound
    \<and> handle env guess_type sendfile r req = handle env guess_type' sendfile' r req'"
proof -
  have f: "map_of (rq_match_info req) ''filename'' = Some (drop (sr_prefix_len r) path)"
    by (rule static_match_filename [OF assms(1)])
  have f': "map_of (rq_match_info req') ''filename'' = Some (drop (sr_prefix_len r) path')"
    by (rule static_match_filename [OF assms(2)])
  have a: "handle env guess_type sendfile r req = Inl HTTPNotFound"
    using handle_not_found [OF f, of env r guess_type sendfile] assms(3,5) by simp
  have b: "handle env guess_type' sendfile' r req' = Inl HTTPNotFound"
    using handle_not_found [OF f', of env r guess_type' sendfile'] assms(4,6) by simp
  show ?thesis
    using a b by simp
qed

lemma escape_path:
  "abspath (os_cwd example_os) (path_join (sr_directory example_route)
      (drop (sr_prefix_len example_route) ''/static/../../etc/passwd'')) = ''/etc/passwd''"
  by code_simp

lemma missing_path:
  "abspath (os_cwd example_os) (path_join (sr_directory example_route)
      (drop (sr_prefix_len example_route) ''/static/missing.txt'')) = ''/srv/static/missing.txt''"
  by code_simp

lemma directory_path:
  "abspath (os_cwd example_os) (path_join (sr_directory example_route)
      (drop (sr_prefix_len example_route) ''/static/sub'')) = ''/srv/static/sub''"
  by code_simp

lemma example_paths:
  "\<not> startswith ''/etc/passwd'' (sr_directory example_route)"
  "isfile example_os ''/etc/passwd''"
  "\<not> exists_path example_os ''/srv/static/missing.txt''"
  "startswith ''/srv/static/sub'' (sr_directory example_route)"
  "exists_path example_os ''/srv/static/sub''"
  "\<not> isfile example_os ''/srv/static/sub''"
  by code_simp+

lemma example_matches:
  "static_match example_route ''/static/../../etc/passwd'' = Some [(''filename'', ''../../etc/passwd'')]"
  "static_match example_route ''/static/missing.txt'' = Some [(''filename'', ''missing.txt'')]"
  "static_match example_route ''/static/sub'' = Some [(''filename'', ''sub'')]"
  by code_simp+

theorem static_not_found_uniform_witness:
  "handle example_os example_guess_type (\<lambda>f n. Inr (sendfile_fallback 4 f n)) example_route
      \<lparr>rq_match_info = [(''filename'', ''../../etc/passwd'')], rq_if_modified_since = None\<rparr>
     = Inl HTTPNotFound
   \<and> handle example_os example_guess_type (\<lambda>f n. Inr (sendfile_fallback 4 f n)) example_route
      \<lparr>rq_match_info = [(''filename'', ''missing.txt'')], rq_if_modified_since = None\<rparr>
     = Inl HTTPNotFound
   \<and> handle example_os example_guess_type (\<lambda>f n. Inr (sendfile_fallback 4 f n)) example_route
      \<lparr>rq_match_info = [(''filename'', ''sub'')], rq_if_modified_since = None\<rparr>
     = Inl HTTPNotFound
   \<and> isfile example_os ''/etc/passwd''"
proof -
  let ?gt = example_guess_type
  let ?sf = "\<lambda>f n. Inr (sendfile_fallback 4 f n) :: error + bytes list"
  let ?esc = "\<lparr>rq_match_info = [(''filename'', ''../../etc/passwd'')], rq_if_modified_since = None\<rparr>"
  let ?mis = "\<lparr>rq_match_info = [(''filename'', ''missing.txt'')], rq_if_modified_since = None\<rparr>"
  let ?dir = "\<lparr>rq_match_info = [(''filename'', ''sub'')], rq_if_modified_since = None\<rparr>"
  have m: "static_match example_route ''/static/../../etc/passwd'' = Some (rq_match_info ?esc)"
    "static_match example_route ''/static/missing.txt'' = Some (rq_match_info ?mis)"
    "static_match example_route ''/static/sub'' = Some (rq_match_info ?dir)"
    by (simp_all add: example_matches)
  have c1: "\<not> startswith ''/etc/passwd'' (sr_directory example_route)
         \<or> \<not> exists_path example_os ''/etc/passwd'' \<or> \<not> isfile example_os ''/etc/passwd''"
    using example_paths(1) by simp
  have c2: "\<not> startswith ''/srv/static/missing.txt'' (sr_directory example_route)
         \<or> \<not> exists_path example_os ''/srv/static/missing.txt''
         \<or> \<not> isfile example_os ''/srv/static/missing.txt''"
    using example_paths(3) by simp
  have c3: "\<not> startswith ''/srv/static/sub'' (sr_directory example_route)
         \<or> \<not> exists_path example_os ''/srv/static/sub''
         \<or> \<not> isfile example_os ''/srv/static/sub''"
    using example_paths(6) by simp
  note t1 = static_not_found_uniform [OF m(1) m(2) escape_path [symmetric] missing_path [symmetric]
      c1 c2, of ?gt ?sf ?gt ?sf]
  note t2 = static_not_found_uniform [OF m(3) m(2) directory_path [symmetric] missing_path [symmetric]
      c3 c2, of ?gt ?sf ?gt ?sf]
  show ?thesis
    using t1 t2 example_paths(2) by blast
qed

lemma sendfile_fallback_concat:
  "0 < chunk_size \<Longrightarrow> concat (sendfile_fallback chunk_size fobj count) = take count fobj"
proof (induction chunk_size fobj count rule: sendfile_fallback.induct)
  case (1 chunk_size fobj count)
  show ?case
  proof (cases "take chunk_size fobj \<noteq> [] \<and> count > chunk_size")
    case True
    then have "concat (sendfile_fallback chunk_size fobj count)
        = take chunk_size fobj
          @ concat (sendfile_fallback chunk_size (drop chunk_size fobj) (count - chunk_size))"
      by (subst sendfile_fallback.simps) (simp add: Let_def)
    also have "\<dots> = take chunk_size fobj @ take (count - chunk_size) (drop chunk_size fobj)"
      using 1 True by simp
    also have "\<dots> = take count fobj"
      using True by (metis le_add_diff_inverse less_imp_le_nat take_add)
    finally show ?thesis .
  next
    case False
    show ?thesis
    proof (cases "take chunk_size fobj = []")
      case True
      then have "fobj = []" using 1(2) by (cases fobj) auto
      then show ?thesis by (subst sendfile_fallback.simps) simp
    next
      case ne: False
      then have le: "count \<le> chunk_size" using False by simp
      have "concat (sendfile_fallback chunk_size fobj count) = take count (take chunk_size fobj)"
        using ne False by (subst sendfile_fallback.simps) (simp add: Let_def)
      then show ?thesis using le by (simp add: min_def)
    qed
  qed
qed

text \<open>What \<open>handle\<close> does once the file is found under the root.\<close>

lemma handle_found:
  assumes "map_of (rq_match_info req) ''filename'' = Some filename"
    and "filepath = abspath (os_cwd env) (path_join (sr_directory r) filename)"
    and "startswith filepath (sr_directory r)"
    and "os_files env filepath = Some st" and "n_kind st = Regular_file"
  shows "handle env guess_type sendfile r req =
     (if (case rq_if_modified_since req of None \<Rightarrow> False | Some modsince \<Rightarrow> n_mtime st \<le> modsince)
      then Inl HTTPNotModified
      else (case sendfile (n_content st) (n_size st) of
              Inl e \<Rightarrow> Inl e
            | Inr chunks \<Rightarrow>
                Inr (StreamResponse
                      \<lparr>rs_content_type :=
                         (case fst (guess_type filepath) of
                            None \<Rightarrow> ''application/octet-stream''
                          | Some t \<Rightarrow> if t = [] then ''application/octet-stream'' else t),
                       rs_content_encoding :=
                         (case snd (guess_type filepath) of
                            None \<Rightarrow> None
                          | Some enc \<Rightarrow> if enc = [] then None else Some enc),
                       rs_last_modified := Some (n_mtime st),
                       rs_content_length := Some (n_size st),
                       rs_tcp_cork := True, rs_prepared := True,
                       rs_body := chunks, rs_tcp_nodelay := True\<rparr>)))"
  using assms
  by (auto simp: handle_def Let_def exists_path_def isfile_def StreamResponse_def
      split: prod.splits option.splits sum.splits)

text \<open>
  C7. Let the request name a regular file under the root, with modification time
  \<open>n_mtime st\<close>. If the request carries an \<open>If-Modified-Since\<close> time at or after the
  modification time, \<open>handle\<close> raises \<open>HTTPNotModified\<close>, whatever the transfer strategy
  is: no response is built and the transfer is not run, so no body byte is written. If
  the header is absent or its time is strictly before the modification time, \<open>handle\<close>
  returns the prepared response with \<open>Content-Length\<close> the size of the file and as body
  what the transfer wrote; with the fallback transfer of the source, a positive chunk
  size and the size being the length of the content, the body is the content of the file.
\<close>

theorem static_if_modified_since:
  assumes "map_of (rq_match_info req) ''filename'' = Some filename"
    and "filepath = abspath (os_cwd env) (path_join (sr_directory r) filename)"
    and "startswith filepath (sr_directory r)"
    and "os_files env filepath = Some st" and "n_kind st = Regular_file"
  shows "(\<forall>modsince. rq_if_modified_since req = Some modsince \<and> n_mtime st \<le> modsince \<longrightarrow>
            handle env guess_type sendfile r req = Inl HTTPNotModified)
    \<and> ((rq_if_modified_since req = None
          \<or> (\<exists>modsince. rq_if_modified_since req = Some modsince \<and> modsince < n_mtime st)) \<longrightarrow>
         (\<forall>chunks. sendfile (n_content st) (n_size st) = Inr chunks \<longrightarrow>
            (\<exists>resp. handle env guess_type sendfile r req = Inr resp
               \<and> rs_body resp = chunks \<and> rs_prepared resp
               \<and> rs_content_length resp = Some (n_size st)
               \<and> rs_last_modified resp = Some (n_mtime st)))
         \<and> (0 < sr_chunk_size r \<and> n_size st = length (n_content st) \<longrightarrow>
            (\<exists>resp. handle env guess_type (\<lambda>f n. Inr (sendfile_fallback (sr_chunk_size r) f n)) r req
                       = Inr resp
               \<and> concat (rs_body resp) = n_content st)))"
proof -
  note h = handle_found [OF assms]
  have p1: "\<forall>modsince. rq_if_modified_since req = Some modsince \<and> n_mtime st \<le> modsince \<longrightarrow>
            handle env guess_type sendfile r req = Inl HTTPNotModified"
    by (simp add: h)
  have p2: "\<forall>chunks. sendfile (n_content st) (n_size st) = Inr chunks \<longrightarrow>
            (\<exists>resp. handle env guess_type sendfile r req = Inr resp
               \<and> rs_body resp = chunks \<and> rs_prepared resp
               \<and> rs_content_length resp = Some (n_size st)
               \<and> rs_last_modified resp = Some (n_mtime st))"
    if "rq_if_modified_since req = None
          \<or> (\<exists>modsince. rq_if_modified_since req = Some modsince \<and> modsince < n_mtime st)"
    using that by (auto simp: h)
  have p3: "0 < sr_chunk_size r \<and> n_size st = length (n_content st) \<longrightarrow>
            (\<exists>resp. handle env guess_type (\<lambda>f n. Inr (sendfile_fallback (sr_chunk_size r) f n)) r req
                       = Inr resp
               \<and> concat (rs_body resp) = n_content st)"
    if "rq_if_modified_since req = None
          \<or> (\<exists>modsince. rq_if_modified_since req = Some modsince \<and> modsince < n_mtime st)"
    using that
    by (auto simp: handle_found [OF assms, of guess_type] sendfile_fallback_concat)
  show ?thesis
    using p1 p2 p3 by blast
qed

lemma index_path:
  "abspath (os_cwd example_os) (path_join (sr_directory example_route) ''index.html'')
     = ''/srv/static/index.html''"
  by code_simp

lemma index_file:
  "startswith ''/srv/static/index.html'' (sr_directory example_route)"
  "os_files example_os ''/srv/static/index.html''
     = Some (example_node Regular_file 100 ''<html></html>'')"
  by (simp_all add: startswith_def example_route_def example_os_def)

theorem static_if_modified_since_witness:
  "handle example_os example_guess_type (\<lambda>f n. Inr (sendfile_fallback 4 f n)) example_route
      \<lparr>rq_match_info = [(''filename'', ''index.html'')], rq_if_modified_since = Some 100\<rparr>
     = Inl HTTPNotModified
   \<and> handle example_os example_guess_type (\<lambda>f n. Inr (sendfile_fallback 4 f n)) example_route
      \<lparr>rq_match_info = [(''filename'', ''index.html'')], rq_if_modified_since = Some 250\<rparr>
     = Inl HTTPNotModified
   \<and> (\<exists>resp. handle example_os example_guess_type (\<lambda>f n. Inr (sendfile_fallback 4 f n))
                 example_route
                 \<lparr>rq_match_info = [(''filename'', ''index.html'')],
                   rq_if_modified_since = Some 99\<rparr> = Inr resp
          \<and> concat (rs_body resp) = ''<html></html>'')
   \<and> (\<exists>resp. handle example_os example_guess_type (\<lambda>f n. Inr (sendfile_fallback 4 f n))
                 example_route
                 \<lparr>rq_match_info = [(''filename'', ''index.html'')],
                   rq_if_modified_since = None\<rparr> = Inr resp
          \<and> concat (rs_body resp) = ''<html></html>'')"
proof -
  let ?gt = example_guess_type
  let ?sf = "\<lambda>f n. Inr (sendfile_fallback 4 f n) :: error + bytes list"
  let ?st = "example_node Regular_file 100 ''<html></html>''"
  have st: "n_kind ?st = Regular_file" "n_mtime ?st = 100" "n_content ?st = ''<html></html>''"
    "n_size ?st = length (n_content ?st)"
    by (simp_all add: example_node_def)
  have cs: "sr_chunk_size example_route = 4"
    by (simp add: example_route_def)
  have t: "(\<forall>modsince. rq_if_modified_since req = Some modsince \<and> n_mtime ?st \<le> modsince \<longrightarrow>
            handle example_os ?gt ?sf example_route req = Inl HTTPNotModified)
    \<and> ((rq_if_modified_since req = None
          \<or> (\<exists>modsince. rq_if_modified_since req = Some modsince \<and> modsince < n_mtime ?st)) \<longrightarrow>
         (0 < sr_chunk_size example_route \<and> n_size ?st = length (n_content ?st) \<longrightarrow>
            (\<exists>resp. handle example_os ?gt
                       (\<lambda>f n. Inr (sendfile_fallback (sr_chunk_size example_route) f n))
                       example_route req = Inr resp
               \<and> concat (rs_body resp) = n_content ?st)))"
    if "map_of (rq_match_info req) ''filename'' = Some ''index.html''" for req
    using static_if_modified_since [OF that index_path [symmetric] index_file(1) index_file(2) st(1),
        of ?gt ?sf] by blast
  have a: "handle example_os ?gt ?sf example_route
      \<lparr>rq_match_info = [(''filename'', ''index.html'')], rq_if_modified_since = Some 100\<rparr>
     = Inl HTTPNotModified"
    using t [of "\<lparr>rq_match_info = [(''filename'', ''index.html'')], rq_if_modified_since = Some 100\<rparr>"]
      st(2) by simp
  have b: "handle example_os ?gt ?sf example_route
      \<lparr>rq_match_info = [(''filename'', ''index.html'')], rq_if_modified_since = Some 250\<rparr>
     = Inl HTTPNotModified"
    using t [of "\<lparr>rq_match_info = [(''filename'', ''index.html'')], rq_if_modified_since = Some 250\<rparr>"]
      st(2) by simp
  have c: "\<exists>resp. handle example_os ?gt ?sf example_route
                 \<lparr>rq_match_info = [(''filename'', ''index.html'')],
                   rq_if_modified_since = Some 99\<rparr> = Inr resp
          \<and> concat (rs_body resp) = ''<html></html>''"
    using t [of "\<lparr>rq_match_info = [(''filename'', ''index.html'')], rq_if_modified_since = Some 99\<rparr>"]
      st cs by simp
  have d: "\<exists>resp. handle example_os ?gt ?sf example_route
                 \<lparr>rq_match_info = [(''filename'', ''index.html'')],
                   rq_if_modified_since = None\<rparr> = Inr resp
          \<and> concat (rs_body resp) = ''<html></html>''"
    using t [of "\<lparr>rq_match_info = [(''filename'', ''index.html'')], rq_if_modified_since = None\<rparr>"]
      st cs by simp
  show ?thesis
    using a b c d by (intro conjI)
qed

end
